theory Spec2Isabelle
  imports Main "HOL-Library.Word" "HOL-Library.Sublist"
begin

section \<open>Data model\<close>

text \<open>
  Go values as they appear in the source.
  \<^item> \<open>time.Time\<close> is an instant, modelled as a number of nanoseconds (an \<open>int\<close>);
    \<open>t.After u\<close> is \<open>u < t\<close>. Every call of \<open>time.Now()\<close> is a parameter of the
    function that makes it, in the order of the calls.
  \<^item> \<open>time.Duration\<close> is an \<open>int64\<close> count of nanoseconds: a 64-bit word, whose
    multiplication wraps around as Go's does. \<open>t.Add d\<close> moves the instant by the signed
    value of \<open>d\<close>.
  \<^item> Go's \<open>int\<close> is 64 bits wide on every target the release workflow builds
    (linux and darwin, amd64 and arm64). Where the code computes with an \<open>int\<close>
    (\<open>RetryCount\<close>) it is a 64-bit word read as signed; where it only compares it
    (\<open>maxSize\<close>, \<open>count\<close>, lengths) it is an \<open>int\<close>.
  \<^item> \<open>*email.Email\<close> is an address into a store of messages: the queue's slice, its
    map and the callers share the messages they point to. Every address holds a message
    (a nil pointer is not a message; the callers pass messages they have built).
\<close>

type_synonym Time = int
type_synonym Duration = "64 word"
type_synonym go_int = "64 word"

definition Add :: "Time \<Rightarrow> Duration \<Rightarrow> Time" where
  "Add t d = t + sint d"

definition Minute :: Duration where
  "Minute = 60000000000"

definition Millisecond :: Duration where
  "Millisecond = 1000000"

text \<open>\<open>type Status string\<close> with its six constants.\<close>

type_synonym Status = string

definition StatusPending :: Status where "StatusPending = ''pending''"
definition StatusQueued :: Status where "StatusQueued = ''queued''"
definition StatusSending :: Status where "StatusSending = ''sending''"
definition StatusDelivered :: Status where "StatusDelivered = ''delivered''"
definition StatusFailed :: Status where "StatusFailed = ''failed''"
definition StatusBounced :: Status where "StatusBounced = ''bounced''"

record Attachment =
  Filename :: string
  ContentType :: string
  Data :: "8 word list"

text \<open>
  \<open>Headers\<close> is a Go map; the list holds its entries (keys distinct) in the order in
  which a \<open>range\<close> over the map yields them, which the runtime chooses.
\<close>

record Email =
  ID :: string
  From :: string
  To :: "string list"
  CC :: "string list"
  BCC :: "string list"
  Subject :: string
  Body :: string
  HTML :: string
  Headers :: "(string \<times> string) list"
  Attachments :: "Attachment list"
  Status :: Status
  RetryCount :: go_int
  LastError :: string
  CreatedAt :: Time
  UpdatedAt :: Time
  ScheduledAt :: "Time option"
  DeliveredAt :: "Time option"

type_synonym addr = nat
type_synonym heap = "addr \<Rightarrow> Email"

text \<open>
  Errors: the sentinel values of \<open>errors.New\<close>, the errors built by \<open>fmt.Errorf\<close>
  (with and without a wrapped cause), and the errors of the injected resolver and
  client, known by their text.
\<close>

datatype error =
    ErrQueueFull
  | ErrEmailNotFound
  | ErrInvalidFrom
  | ErrNoRecipients
  | ErrInvalidRecipient
  | ErrEmptySubject
  | ErrEmptyBody
  | ErrMessageTooLarge
  | Errorf string
  | Errorf_w string error
  | External string

fun Error :: "error \<Rightarrow> string" where
  "Error ErrQueueFull = ''queue is full''"
| "Error ErrEmailNotFound = ''email not found''"
| "Error ErrInvalidFrom = ''invalid from address''"
| "Error ErrNoRecipients = ''no recipients specified''"
| "Error ErrInvalidRecipient = ''invalid recipient address''"
| "Error ErrEmptySubject = ''empty subject''"
| "Error ErrEmptyBody = ''empty body''"
| "Error ErrMessageTooLarge = ''message too large''"
| "Error (Errorf s) = s"
| "Error (Errorf_w s e) = s @ Error e"
| "Error (External s) = s"

text \<open>
  The two ways in which a call in this program does not return: the panic of
  \<open>make\<close> on a capacity out of range, and the fatal error of the runtime when it has
  no memory for an allocation, which ends the process.
\<close>

datatype panic = PanicMakesliceCap | FatalOutOfMemory

section \<open>The queue (package queue)\<close>

record MemoryQueue =
  emails :: "addr list"
  emailMap :: "string \<rightharpoonup> addr"
  maxSize :: int

definition NewMemoryQueue :: "int \<Rightarrow> MemoryQueue" where
  "NewMemoryQueue n = \<lparr>emails = [], emailMap = Map.empty, maxSize = n\<rparr>"

definition Size :: "MemoryQueue \<Rightarrow> int" where
  "Size q = int (length (emails q))"

text \<open>\<open>Enqueue\<close>: the capacity check, then the stamp, the append and the map entry.\<close>

definition Enqueue :: "addr \<Rightarrow> Time \<Rightarrow> heap \<Rightarrow> MemoryQueue \<Rightarrow> error option \<times> heap \<times> MemoryQueue" where
  "Enqueue e now h q =
     (if int (length (emails q)) \<ge> maxSize q then (Some ErrQueueFull, h, q)
      else
        let h1 = h(e := (h e)\<lparr>UpdatedAt := now\<rparr>);
            q1 = q\<lparr>emails := emails q @ [e]\<rparr>;
            q2 = q1\<lparr>emailMap := (emailMap q1)(ID (h1 e) \<mapsto> e)\<rparr>
        in (None, h1, q2))"

text \<open>
  \<open>make([]*email.Email, 0, count)\<close> panics when the capacity is negative or when
  the slice would be larger than the runtime allows: eight bytes a pointer, at most
  \<open>2 ^ 48\<close> bytes on the 64-bit targets. A capacity that passes this check is then
  allocated; whether the runtime has the memory is not decided by the program, and
  \<open>Dequeue\<close> takes it as the parameter \<open>allocated\<close>, as it takes the reading of the
  clock. A slice of capacity 0 takes no memory.
\<close>

definition maxAlloc :: int where
  "maxAlloc = 2 ^ 48"

definition makeslice_panics :: "int \<Rightarrow> bool" where
  "makeslice_panics cap \<longleftrightarrow> cap < 0 \<or> 8 * cap > maxAlloc"

text \<open>
  The loop of \<open>Dequeue\<close> over \<open>q.emails\<close> from index \<open>i\<close> on: it stops when the
  result holds \<open>count\<close> messages, skips a message scheduled after \<open>now\<close>, skips a
  message whose status is not queued, and otherwise marks the message and appends it.
\<close>

fun Dequeue_loop :: "int \<Rightarrow> Time \<Rightarrow> addr list \<Rightarrow> addr list \<Rightarrow> heap \<Rightarrow> addr list \<times> heap" where
  "Dequeue_loop count now [] result h = (result, h)"
| "Dequeue_loop count now (e # es) result h =
     (if \<not> int (length result) < count then (result, h)
      else if (case ScheduledAt (h e) of None \<Rightarrow> False | Some t \<Rightarrow> now < t)
        then Dequeue_loop count now es result h
      else if Status (h e) \<noteq> StatusQueued
        then Dequeue_loop count now es result h
      else Dequeue_loop count now es (result @ [e])
             (h(e := (h e)\<lparr>Status := StatusSending, UpdatedAt := now\<rparr>)))"

definition Dequeue :: "int \<Rightarrow> Time \<Rightarrow> bool \<Rightarrow> heap \<Rightarrow> MemoryQueue \<Rightarrow> panic + (addr list \<times> error option \<times> heap)" where
  "Dequeue count now allocated h q =
     (if makeslice_panics count then Inl PanicMakesliceCap
      else if 0 < count \<and> \<not> allocated then Inl FatalOutOfMemory
      else case Dequeue_loop count now (emails q) [] h of
             (result, h1) \<Rightarrow> Inr (result, None, h1))"

text \<open>
  \<open>removeEmail\<close>: the first message of the slice whose \<open>ID\<close> is \<open>id\<close> is cut out
  (the loop breaks there), and the key is deleted from the map.
\<close>

fun removeEmail_slice :: "string \<Rightarrow> heap \<Rightarrow> addr list \<Rightarrow> addr list" where
  "removeEmail_slice i h [] = []"
| "removeEmail_slice i h (e # es) =
     (if ID (h e) = i then es else e # removeEmail_slice i h es)"

definition removeEmail :: "string \<Rightarrow> heap \<Rightarrow> MemoryQueue \<Rightarrow> MemoryQueue" where
  "removeEmail i h q =
     q\<lparr>emails := removeEmail_slice i h (emails q), emailMap := (emailMap q)(i := None)\<rparr>"

definition MarkDelivered :: "string \<Rightarrow> Time \<Rightarrow> heap \<Rightarrow> MemoryQueue \<Rightarrow> error option \<times> heap \<times> MemoryQueue" where
  "MarkDelivered i now h q =
     (case emailMap q i of
        None \<Rightarrow> (Some ErrEmailNotFound, h, q)
      | Some e \<Rightarrow>
          let h1 = h(e := (h e)\<lparr>Status := StatusDelivered, UpdatedAt := now, DeliveredAt := Some now\<rparr>)
          in (None, h1, removeEmail i h1 q))"

text \<open>
  \<open>MarkFailed\<close> reads the clock twice: \<open>now1\<close> stamps \<open>UpdatedAt\<close>, \<open>now2\<close> is
  the start of the retry delay. The delay is
  \<open>time.Duration(e.RetryCount) * 5 * time.Minute\<close>, in \<open>int64\<close> arithmetic.
\<close>

definition MarkFailed :: "string \<Rightarrow> string \<Rightarrow> bool \<Rightarrow> Time \<Rightarrow> Time \<Rightarrow> heap \<Rightarrow> MemoryQueue \<Rightarrow> error option \<times> heap \<times> MemoryQueue" where
  "MarkFailed i reason retry now1 now2 h q =
     (case emailMap q i of
        None \<Rightarrow> (Some ErrEmailNotFound, h, q)
      | Some e \<Rightarrow>
          let h1 = h(e := (h e)\<lparr>LastError := reason, UpdatedAt := now1\<rparr>)
          in if retry then
               let h2 = h1(e := (h1 e)\<lparr>Status := StatusQueued, RetryCount := RetryCount (h1 e) + 1\<rparr>);
                   retryDelay = RetryCount (h2 e) * 5 * Minute;
                   nextRetry = Add now2 retryDelay
               in (None, h2(e := (h2 e)\<lparr>ScheduledAt := Some nextRetry\<rparr>), q)
             else
               let h2 = h1(e := (h1 e)\<lparr>Status := StatusFailed\<rparr>)
               in (None, h2, removeEmail i h2 q))"

text \<open>
  A message is ready for \<open>Dequeue\<close> at \<open>now\<close> when its status is queued and its
  \<open>ScheduledAt\<close>, if set, is at or before \<open>now\<close>; a selected message is marked as
  sending and stamped.
\<close>

definition ready :: "Time \<Rightarrow> heap \<Rightarrow> addr \<Rightarrow> bool" where
  "ready now h a \<longleftrightarrow>
     Status (h a) = StatusQueued \<and> (case ScheduledAt (h a) of None \<Rightarrow> True | Some t \<Rightarrow> t \<le> now)"

definition mark_sending :: "Time \<Rightarrow> Email \<Rightarrow> Email" where
  "mark_sending now m = m\<lparr>Status := StatusSending, UpdatedAt := now\<rparr>"

subsection \<open>Runs of queue operations\<close>

text \<open>
  The calls of the \<open>Queue\<close> interface, each with the clock readings it makes, and
  \<open>Dequeue\<close> with the outcome of its allocation. A run applies them in order under the
  queue's lock and collects what each call returned (the dequeued messages; nothing for
  the other calls); it ends where a call does not return.
\<close>

datatype queue_op =
    OpEnqueue addr Time
  | OpDequeue int Time bool
  | OpMarkDelivered string Time
  | OpMarkFailed string string bool Time Time

fun queue_step :: "queue_op \<Rightarrow> heap \<Rightarrow> MemoryQueue \<Rightarrow> panic + (addr list \<times> heap \<times> MemoryQueue)" where
  "queue_step (OpEnqueue e now) h q =
     (case Enqueue e now h q of (_, h1, q1) \<Rightarrow> Inr ([], h1, q1))"
| "queue_step (OpDequeue count now allocated) h q =
     (case Dequeue count now allocated h q of
        Inl p \<Rightarrow> Inl p
      | Inr (result, _, h1) \<Rightarrow> Inr (result, h1, q))"
| "queue_step (OpMarkDelivered i now) h q =
     (case MarkDelivered i now h q of (_, h1, q1) \<Rightarrow> Inr ([], h1, q1))"
| "queue_step (OpMarkFailed i reason retry now1 now2) h q =
     (case MarkFailed i reason retry now1 now2 h q of (_, h1, q1) \<Rightarrow> Inr ([], h1, q1))"

fun queue_run :: "queue_op list \<Rightarrow> heap \<Rightarrow> MemoryQueue \<Rightarrow> addr list list \<times> heap \<times> MemoryQueue" where
  "queue_run [] h q = ([], h, q)"
| "queue_run (x # xs) h q =
     (case queue_step x h q of
        Inl p \<Rightarrow> ([], h, q)
      | Inr (out, h1, q1) \<Rightarrow>
          (case queue_run xs h1 q1 of (outs, h2, q2) \<Rightarrow> (out # outs, h2, q2)))"

fun enqueues_id :: "heap \<Rightarrow> string \<Rightarrow> queue_op \<Rightarrow> bool" where
  "enqueues_id h i (OpEnqueue e now) = (ID (h e) = i)"
| "enqueues_id h i _ = False"

definition unique_ids :: "heap \<Rightarrow> MemoryQueue \<Rightarrow> bool" where
  "unique_ids h q \<longleftrightarrow> distinct (map (\<lambda>a. ID (h a)) (emails q))"

text \<open>
  Callers keep identifiers unique when every \<open>Enqueue\<close> of a run brings an identifier
  that no message of the slice carries at that moment. Under this discipline the map is
  exactly the index of the slice by identifier.
\<close>

fun fresh_step :: "heap \<Rightarrow> MemoryQueue \<Rightarrow> queue_op \<Rightarrow> bool" where
  "fresh_step h q (OpEnqueue e now) = (ID (h e) \<notin> set (map (\<lambda>a. ID (h a)) (emails q)))"
| "fresh_step h q _ = True"

fun fresh_run :: "queue_op list \<Rightarrow> heap \<Rightarrow> MemoryQueue \<Rightarrow> bool" where
  "fresh_run [] h q = True"
| "fresh_run (x # xs) h q =
     (fresh_step h q x \<and>
      (case queue_step x h q of
         Inl p \<Rightarrow> True
       | Inr (out, h1, q1) \<Rightarrow> fresh_run xs h1 q1))"

definition queue_wf :: "heap \<Rightarrow> MemoryQueue \<Rightarrow> bool" where
  "queue_wf h q \<longleftrightarrow>
     unique_ids h q \<and> (\<forall>i e. emailMap q i = Some e \<longleftrightarrow> e \<in> set (emails q) \<and> ID (h e) = i)"

section \<open>Configuration (package config)\<close>

record QueueConfig =
  StoragePath :: string
  MaxSize :: int
  MaxRetry :: go_int
  RetryDelay :: Duration
  BatchSize :: int

record DeliveryConfig =
  Workers :: int
  DNSCacheTTL :: Duration
  ConnectionTimeout :: Duration
  ConnectionPoolSize :: int

text \<open>The \<open>Queue\<close> and \<open>Delivery\<close> parts of \<open>DefaultConfig()\<close>.\<close>

definition DefaultConfig_Queue :: QueueConfig where
  "DefaultConfig_Queue =
     \<lparr>StoragePath = [], MaxSize = 10000, MaxRetry = 5, RetryDelay = 5 * Minute, BatchSize = 100\<rparr>"

definition DefaultConfig_Delivery :: DeliveryConfig where
  "DefaultConfig_Delivery =
     \<lparr>Workers = 20, DNSCacheTTL = 5 * Minute, ConnectionTimeout = 30 * 1000000000,
      ConnectionPoolSize = 100\<rparr>"

section \<open>The delivery service (package delivery)\<close>

record MX =
  Host :: string
  Pref :: "16 word"

record dnsCacheEntry =
  mx :: "MX list"
  expiresAt :: Time

text \<open>
  The fields of \<open>Service\<close> that hold data. The queue, the resolver and the client are
  interfaces: the queue is the \<open>MemoryQueue\<close> above, the resolver's \<open>LookupMX\<close> and
  the client's \<open>Send\<close> are function parameters of the methods that call them.
\<close>

record Service =
  config :: DeliveryConfig
  maxRetry :: go_int
  dnsCache :: "string \<rightharpoonup> dnsCacheEntry"

definition NewService :: "DeliveryConfig \<Rightarrow> Service" where
  "NewService cfg = \<lparr>config = cfg, maxRetry = 5, dnsCache = Map.empty\<rparr>"

text \<open>
  \<open>getMXRecords\<close> reads the clock at the cache check (\<open>now1\<close>) and when it stores
  a fresh entry (\<open>now2\<close>). The third component of the result counts the calls of the
  resolver.
\<close>

definition getMXRecords :: "string \<Rightarrow> Time \<Rightarrow> Time \<Rightarrow> (string \<Rightarrow> error + MX list) \<Rightarrow> Service \<Rightarrow> (error + MX list) \<times> Service \<times> nat" where
  "getMXRecords domain now1 now2 LookupMX s =
     (case (case dnsCache s domain of
              None \<Rightarrow> None
            | Some entry \<Rightarrow> if now1 < expiresAt entry then Some (mx entry) else None) of
        Some recs \<Rightarrow> (Inr recs, s, 0)
      | None \<Rightarrow>
          (case LookupMX domain of
             Inl err \<Rightarrow> (Inl err, s, 1)
           | Inr recs \<Rightarrow>
               (Inr recs,
                s\<lparr>dnsCache := (dnsCache s)(domain \<mapsto>
                     \<lparr>mx = recs, expiresAt = Add now2 (DNSCacheTTL (config s))\<rparr>)\<rparr>,
                1)))"

text \<open>\<open>strings.Split s sep\<close> for a separator of one byte.\<close>

fun Split :: "string \<Rightarrow> char \<Rightarrow> string list" where
  "Split [] sep = [[]]"
| "Split (c # cs) sep =
     (if c = sep then [] # Split cs sep
      else case Split cs sep of p # ps \<Rightarrow> (c # p) # ps | [] \<Rightarrow> [[c]])"

definition extractDomain :: "string \<Rightarrow> string" where
  "extractDomain email =
     (let parts = Split email (CHR ''@'')
      in if length parts \<noteq> 2 then [] else parts ! 1)"

text \<open>
  The loop of \<open>processEmail\<close> over the MX records: the hosts tried so far are
  collected, the loop returns at the first host that accepts the message and
  otherwise keeps the last error.
\<close>

fun Send_loop :: "(string \<Rightarrow> Email \<Rightarrow> error option) \<Rightarrow> Email \<Rightarrow> MX list \<Rightarrow> error option \<Rightarrow> string list \<Rightarrow> bool \<times> error option \<times> string list" where
  "Send_loop Send e [] lastErr tried = (False, lastErr, tried)"
| "Send_loop Send e (r # rs) lastErr tried =
     (case Send (Host r) e of
        None \<Rightarrow> (True, lastErr, tried @ [Host r])
      | Some err \<Rightarrow> Send_loop Send e rs (Some err) (tried @ [Host r]))"

text \<open>
  \<open>processEmail\<close> returns its error (\<open>None\<close> for a delivered message), the service
  with its cache, the hosts it tried in order, and the number of resolver calls.
\<close>

definition processEmail :: "Email \<Rightarrow> Time \<Rightarrow> Time \<Rightarrow> (string \<Rightarrow> error + MX list) \<Rightarrow> (string \<Rightarrow> Email \<Rightarrow> error option) \<Rightarrow> Service \<Rightarrow> error option \<times> Service \<times> string list \<times> nat" where
  "processEmail e now1 now2 LookupMX Send s =
     (if length (To e) = 0 then (Some (Errorf ''no recipients''), s, [], 0)
      else
        let domain = extractDomain (To e ! 0)
        in if domain = [] then (Some (Errorf ''invalid recipient domain''), s, [], 0)
           else
             (case getMXRecords domain now1 now2 LookupMX s of
                (Inl err, s1, n) \<Rightarrow>
                  (Some (Errorf_w ''failed to get MX records: '' err), s1, [], n)
              | (Inr mxRecords, s1, n) \<Rightarrow>
                  (case Send_loop Send e mxRecords None [] of
                     (True, _, tried) \<Rightarrow> (None, s1, tried, n)
                   | (False, Some lastErr, tried) \<Rightarrow>
                       (Some (Errorf_w ''all MX servers failed: '' lastErr), s1, tried, n)
                   | (False, None, tried) \<Rightarrow>
                       (Some (Errorf ''no MX servers found''), s1, tried, n))))"

text \<open>
  What the worker does with the outcome of \<open>processEmail\<close> for a dequeued message:
  on an error it marks the message failed, with a retry when its retry count is below
  \<open>maxRetry\<close>; otherwise it marks it delivered. An error of the queue is only logged.
\<close>

definition worker_mark :: "Service \<Rightarrow> addr \<Rightarrow> error option \<Rightarrow> Time \<Rightarrow> Time \<Rightarrow> heap \<Rightarrow> MemoryQueue \<Rightarrow> error option \<times> heap \<times> MemoryQueue" where
  "worker_mark s e outcome now1 now2 h q =
     (case outcome of
        Some err \<Rightarrow>
          let shouldRetry = sint (RetryCount (h e)) < sint (maxRetry s)
          in MarkFailed (ID (h e)) (Error err) shouldRetry now1 now2 h q
      | None \<Rightarrow> MarkDelivered (ID (h e)) now1 h q)"

section \<open>Validation (package email)\<close>

text \<open>
  \<open>mail.ParseAddress\<close> and \<open>strings.TrimSpace\<close> belong to Go's library: \<open>Validate\<close>
  takes them as parameters, the first as the test whether parsing succeeds.
\<close>

definition Validate :: "(string \<Rightarrow> bool) \<Rightarrow> (string \<Rightarrow> string) \<Rightarrow> int \<Rightarrow> Email \<Rightarrow> error option" where
  "Validate ParseAddress_ok TrimSpace maxMessageSize e =
     (if From e = [] then Some ErrInvalidFrom
      else if \<not> ParseAddress_ok (From e) then Some ErrInvalidFrom
      else if length (To e) = 0 then Some ErrNoRecipients
      else if \<not> list_all ParseAddress_ok (To e) then Some ErrInvalidRecipient
      else if \<not> list_all ParseAddress_ok (CC e) then Some ErrInvalidRecipient
      else if \<not> list_all ParseAddress_ok (BCC e) then Some ErrInvalidRecipient
      else if TrimSpace (Subject e) = [] then Some ErrEmptySubject
      else if TrimSpace (Body e) = [] \<and> TrimSpace (HTML e) = [] then Some ErrEmptyBody
      else
        let size = int (length (Body e) + length (HTML e))
                   + sum_list (map (\<lambda>att. int (length (Data att))) (Attachments e))
        in if size > maxMessageSize then Some ErrMessageTooLarge else None)"

text \<open>
  The ASCII case of \<open>strings.TrimSpace\<close>: tab, line feed, vertical tab, form feed,
  carriage return and space are cut from both ends.
\<close>

definition asciiSpace :: "char \<Rightarrow> bool" where
  "asciiSpace c \<longleftrightarrow> (of_char c :: nat) \<in> {9, 10, 11, 12, 13, 32}"

definition TrimSpace_ascii :: "string \<Rightarrow> string" where
  "TrimSpace_ascii s = rev (dropWhile asciiSpace (rev (dropWhile asciiSpace s)))"

section \<open>Rendering a message (client.go)\<close>

fun Join :: "string list \<Rightarrow> string \<Rightarrow> string" where
  "Join [] sep = []"
| "Join [x] sep = x"
| "Join (x # y # ys) sep = x @ sep @ Join (y # ys) sep"

text \<open>
  \<open>strings.ToLower\<close> belongs to Go's library and applies the Unicode case mapping:
  \<open>isStandardHeader\<close> takes it as the parameter \<open>ToLower\<close>, and so do the functions
  that call \<open>isStandardHeader\<close>.
\<close>

fun isStandardHeader_loop :: "string \<Rightarrow> string list \<Rightarrow> bool" where
  "isStandardHeader_loop lower [] = False"
| "isStandardHeader_loop lower (s # ss) =
     (if lower = s then True else isStandardHeader_loop lower ss)"

definition isStandardHeader :: "(string \<Rightarrow> string) \<Rightarrow> string \<Rightarrow> bool" where
  "isStandardHeader ToLower key =
     (let standard = [''from'', ''to'', ''cc'', ''bcc'', ''subject'', ''date'', ''mime-version'',
                      ''content-type''];
          lower = ToLower key
      in isStandardHeader_loop lower standard)"

text \<open>
  The header lines that \<open>writeEmail\<close> assembles before it writes anything; \<open>date\<close> is
  \<open>time.Now().Format(time.RFC1123Z)\<close>.
\<close>

fun custom_headers :: "(string \<Rightarrow> string) \<Rightarrow> (string \<times> string) list \<Rightarrow> string list \<Rightarrow> string list" where
  "custom_headers ToLower [] headers = headers"
| "custom_headers ToLower ((k, v) # kvs) headers =
     (if \<not> isStandardHeader ToLower k
        then custom_headers ToLower kvs (headers @ [k @ '': '' @ v])
      else custom_headers ToLower kvs headers)"

definition writeEmail_headers :: "(string \<Rightarrow> string) \<Rightarrow> Email \<Rightarrow> string \<Rightarrow> string list" where
  "writeEmail_headers ToLower e date =
     (let headers = [''From: '' @ From e,
                     ''To: '' @ Join (To e) '', '',
                     ''Subject: '' @ Subject e,
                     ''Date: '' @ date,
                     ''MIME-Version: 1.0''];
          headers = (if length (CC e) > 0 then headers @ [''Cc: '' @ Join (CC e) '', ''] else headers);
          headers = custom_headers ToLower (Headers e) headers
      in if HTML e \<noteq> [] then headers @ [''Content-Type: text/html; charset=utf-8'']
         else headers @ [''Content-Type: text/plain; charset=utf-8''])"

definition writeEmail_body :: "Email \<Rightarrow> string" where
  "writeEmail_body e = (let body = Body e in if HTML e \<noteq> [] then HTML e else body)"

definition CRLF :: string where
  "CRLF = [CHR 0x0D, CHR 0x0A]"

text \<open>
  The \<open>io.Writer\<close> is a state \<open>w\<close> with a write operation that fails or gives the next
  state. \<open>writeEmail\<close> writes each header line, the empty line and the body, and returns
  at the first write that fails.
\<close>

fun write_lines :: "('w \<Rightarrow> string \<Rightarrow> error + 'w) \<Rightarrow> 'w \<Rightarrow> string list \<Rightarrow> error + 'w" where
  "write_lines write w [] = Inr w"
| "write_lines write w (l # ls) =
     (case write w (l @ CRLF) of Inl err \<Rightarrow> Inl err | Inr w1 \<Rightarrow> write_lines write w1 ls)"

definition writeEmail :: "(string \<Rightarrow> string) \<Rightarrow> ('w \<Rightarrow> string \<Rightarrow> error + 'w) \<Rightarrow> 'w \<Rightarrow> Email \<Rightarrow> string \<Rightarrow> error + 'w" where
  "writeEmail ToLower write w e date =
     (case write_lines write w (writeEmail_headers ToLower e date) of
        Inl err \<Rightarrow> Inl err
      | Inr w1 \<Rightarrow>
          (case write w1 CRLF of
             Inl err \<Rightarrow> Inl err
           | Inr w2 \<Rightarrow> write w2 (writeEmail_body e)))"

text \<open>A writer into a buffer, which takes every write.\<close>

definition buffer_write :: "string \<Rightarrow> string \<Rightarrow> error + string" where
  "buffer_write w s = Inr (w @ s)"

text \<open>
  The ASCII case of \<open>strings.ToLower\<close>: the bytes \<open>A\<close> to \<open>Z\<close> become the lower-case
  letters, every other byte is kept.
\<close>

definition lower_byte :: "char \<Rightarrow> char" where
  "lower_byte c =
     (case map_of (zip ''ABCDEFGHIJKLMNOPQRSTUVWXYZ'' ''abcdefghijklmnopqrstuvwxyz'') c of
        Some l \<Rightarrow> l
      | None \<Rightarrow> c)"

definition ToLower_ascii :: "string \<Rightarrow> string" where
  "ToLower_ascii s = map lower_byte s"

section \<open>Concrete inputs\<close>

text \<open>
  The message of the queue's test \<open>TestMemoryQueue_EnqueueDequeue\<close>, and a store with
  four messages: \<open>0\<close> and \<open>2\<close> are queued, \<open>1\<close> is queued and scheduled for the instant
  \<open>500\<close>, \<open>3\<close> is pending.
\<close>

definition test_email :: Email where
  "test_email =
     \<lparr>ID = ''test-1'', From = ''sender@example.com'', To = [''recipient@example.com''],
      CC = [], BCC = [], Subject = ''Test'', Body = ''Test body'', HTML = [], Headers = [],
      Attachments = [], Status = StatusQueued, RetryCount = 0, LastError = [],
      CreatedAt = 0, UpdatedAt = 0, ScheduledAt = None, DeliveredAt = None\<rparr>"

definition test_heap :: heap where
  "test_heap =
     (\<lambda>_. test_email)
       (1 := test_email\<lparr>ID := ''test-2'', ScheduledAt := Some 500\<rparr>,
        2 := test_email\<lparr>ID := ''test-3''\<rparr>,
        3 := test_email\<lparr>ID := ''test-4'', Status := StatusPending\<rparr>)"

definition test_queue :: MemoryQueue where
  "test_queue =
     \<lparr>emails = [0, 1, 2],
      emailMap = [''test-1'' \<mapsto> 0, ''test-2'' \<mapsto> 1, ''test-3'' \<mapsto> 2],
      maxSize = 10\<rparr>"

text \<open>
  The resolver and the clients of the delivery tests: \<open>example.com\<close> has one mail
  exchanger, every other domain is unknown; one client accepts every message, the other
  refuses every connection. A second resolver answers with two exchangers, and a third
  client refuses at the first of them only. The service of the cache test keeps an entry
  for 100 milliseconds.
\<close>

definition mock_LookupMX :: "string \<Rightarrow> error + MX list" where
  "mock_LookupMX domain =
     (if domain = ''example.com'' then Inr [\<lparr>Host = ''mail.example.com'', Pref = 10\<rparr>]
      else Inl (External ''no such host''))"

definition mock_Send_ok :: "string \<Rightarrow> Email \<Rightarrow> error option" where
  "mock_Send_ok host e = None"

definition mock_Send_refused :: "string \<Rightarrow> Email \<Rightarrow> error option" where
  "mock_Send_refused host e = Some (External ''connection refused'')"

definition two_LookupMX :: "string \<Rightarrow> error + MX list" where
  "two_LookupMX domain = Inr [\<lparr>Host = ''mx1.example.com'', Pref = 10\<rparr>, \<lparr>Host = ''mx2.example.com'', Pref = 20\<rparr>]"

definition mx1_refuses :: "string \<Rightarrow> Email \<Rightarrow> error option" where
  "mx1_refuses host e =
     (if host = ''mx1.example.com'' then Some (External ''connection refused'') else None)"

definition test_service :: Service where
  "test_service = NewService (DefaultConfig_Delivery\<lparr>DNSCacheTTL := 100 * Millisecond\<rparr>)"

section \<open>Properties of the queue\<close>

subsection \<open>The loop of Dequeue\<close>

text \<open>
  One step of the loop, in terms of readiness; then what the loop returns from any
  accumulated result: the messages it adds are ready when the loop starts, are marked and
  stamped, occur once and in the order of the slice, and no other message is touched. A
  message that occurs twice in the slice (the same pointer enqueued twice) is selected at
  most once, since its first selection makes it sending.
\<close>

lemma sending_not_queued: "StatusSending \<noteq> StatusQueued"
  by (simp add: StatusSending_def StatusQueued_def)

lemma Dequeue_loop_step:
  "Dequeue_loop count now (e # es) acc h =
     (if \<not> int (length acc) < count then (acc, h)
      else if ready now h e then Dequeue_loop count now es (acc @ [e]) (h(e := mark_sending now (h e)))
      else Dequeue_loop count now es acc h)"
  by (auto simp: ready_def mark_sending_def split: option.splits)

lemma Dequeue_loop_full:
  "\<not> int (length acc) < count \<Longrightarrow> Dequeue_loop count now es acc h = (acc, h)"
  by (cases es) simp_all

lemma ready_upd_other: "a \<noteq> e \<Longrightarrow> ready now (h(e := m)) a = ready now h a"
  by (simp add: ready_def)

lemma not_ready_marked: "\<not> ready now (h(e := mark_sending now m)) e"
  by (simp add: ready_def mark_sending_def sending_not_queued)

lemma Dequeue_loop_spec:
  "Dequeue_loop count now es acc h = (res, h') \<Longrightarrow>
   \<exists>sel. res = acc @ sel \<and> subseq sel es \<and> distinct sel
     \<and> (\<forall>a\<in>set sel. ready now h a \<and> h' a = mark_sending now (h a))
     \<and> (\<forall>a. a \<notin> set sel \<longrightarrow> h' a = h a)
     \<and> int (length res) \<le> max (int (length acc)) count
     \<and> (int (length res) < count \<longrightarrow> (\<forall>a\<in>set es. ready now h a \<longrightarrow> a \<in> set sel))"
proof (induction es arbitrary: acc h res h')
  case Nil
  then show ?case by auto
next
  case (Cons e es)
  show ?case
  proof (cases "int (length acc) < count")
    case False
    with Cons.prems have "res = acc" "h' = h" by (simp_all add: Dequeue_loop_full)
    with False show ?thesis by (intro exI [of _ "[]"]) auto
  next
    case lt: True
    show ?thesis
    proof (cases "ready now h e")
      case False
      with lt Cons.prems have "Dequeue_loop count now es acc h = (res, h')"
        by (simp add: Dequeue_loop_step del: Dequeue_loop.simps(2))
      from Cons.IH [OF this] obtain sel where s: "res = acc @ sel" "subseq sel es" "distinct sel"
        "\<forall>a\<in>set sel. ready now h a \<and> h' a = mark_sending now (h a)"
        "\<forall>a. a \<notin> set sel \<longrightarrow> h' a = h a"
        "int (length res) \<le> max (int (length acc)) count"
        "int (length res) < count \<longrightarrow> (\<forall>a\<in>set es. ready now h a \<longrightarrow> a \<in> set sel)"
        by blast
      show ?thesis
        using s False by (intro exI [of _ sel]) (auto simp: subseq_Cons')
    next
      case True
      let ?h1 = "h(e := mark_sending now (h e))"
      from True lt Cons.prems have "Dequeue_loop count now es (acc @ [e]) ?h1 = (res, h')"
        by (simp add: Dequeue_loop_step del: Dequeue_loop.simps(2))
      from Cons.IH [OF this] obtain sel where s: "res = (acc @ [e]) @ sel" "subseq sel es" "distinct sel"
        "\<forall>a\<in>set sel. ready now ?h1 a \<and> h' a = mark_sending now (?h1 a)"
        "\<forall>a. a \<notin> set sel \<longrightarrow> h' a = ?h1 a"
        "int (length res) \<le> max (int (length (acc @ [e]))) count"
        "int (length res) < count \<longrightarrow> (\<forall>a\<in>set es. ready now ?h1 a \<longrightarrow> a \<in> set sel)"
        by blast
      have e_notin: "e \<notin> set sel"
        using s(4) not_ready_marked by blast
      have r: "\<And>a. a \<noteq> e \<Longrightarrow> ready now ?h1 a = ready now h a"
        by (rule ready_upd_other)
      show ?thesis
      proof (intro exI [of _ "e # sel"] conjI)
        show "res = acc @ e # sel" using s(1) by simp
        show "subseq (e # sel) (e # es)" using s(2) by simp
        show "distinct (e # sel)" using s(3) e_notin by simp
        show "\<forall>a\<in>set (e # sel). ready now h a \<and> h' a = mark_sending now (h a)"
        proof
          fix a assume a: "a \<in> set (e # sel)"
          show "ready now h a \<and> h' a = mark_sending now (h a)"
          proof (cases "a = e")
            case True
            then show ?thesis using \<open>ready now h e\<close> s(5) e_notin by simp
          next
            case False
            with a have "a \<in> set sel" by simp
            with s(4) have "ready now ?h1 a" "h' a = mark_sending now (?h1 a)" by auto
            with False r show ?thesis by simp
          qed
        qed
        show "\<forall>a. a \<notin> set (e # sel) \<longrightarrow> h' a = h a"
          using s(5) by auto
        show "int (length res) \<le> max (int (length acc)) count"
          using s(6) lt by simp
        show "int (length res) < count \<longrightarrow> (\<forall>a\<in>set (e # es). ready now h a \<longrightarrow> a \<in> set (e # sel))"
          using s(7) r by auto
      qed
    qed
  qed
qed

lemma Dequeue_loop_distinct:
  "distinct es \<Longrightarrow> set es \<inter> set acc = {} \<Longrightarrow>
   fst (Dequeue_loop count now es acc h) = acc @ take (nat count - length acc) (filter (ready now h) es)"
proof (induction es arbitrary: acc h)
  case Nil
  then show ?case by simp
next
  case (Cons e es)
  show ?case
  proof (cases "int (length acc) < count")
    case False
    then have "nat count - length acc = 0" by linarith
    with False show ?thesis by (simp add: Dequeue_loop_full)
  next
    case lt: True
    show ?thesis
    proof (cases "ready now h e")
      case False
      with lt Cons show ?thesis by (simp add: Dequeue_loop_step del: Dequeue_loop.simps(2))
    next
      case True
      let ?h1 = "h(e := mark_sending now (h e))"
      have f: "filter (ready now ?h1) es = filter (ready now h) es"
      proof (rule filter_cong [OF refl])
        fix a assume "a \<in> set es"
        with Cons.prems(1) have "a \<noteq> e" by auto
        then show "ready now ?h1 a = ready now h a" by (rule ready_upd_other)
      qed
      have "fst (Dequeue_loop count now es (acc @ [e]) ?h1)
            = (acc @ [e]) @ take (nat count - length (acc @ [e])) (filter (ready now ?h1) es)"
        using Cons.prems by (intro Cons.IH) auto
      moreover have "nat count - length acc = Suc (nat count - length (acc @ [e]))"
        using lt by simp
      ultimately show ?thesis
        using True lt f by (simp add: Dequeue_loop_step del: Dequeue_loop.simps(2))
    qed
  qed
qed

lemma subseq_set_subset: "subseq xs ys \<Longrightarrow> set xs \<subseteq> set ys"
  by (auto dest: list_emb_set)

lemma test_ready: "take (nat 2) (filter (ready 100 test_heap) (emails test_queue)) = [0, 2]"
  by (simp add: ready_def test_heap_def test_email_def test_queue_def)

subsection \<open>Dequeue\<close>

text \<open>
  Claim C3, as amended. For every \<open>count\<close> from \<open>0\<close> up to the largest capacity that
  \<open>make\<close> accepts, and when the runtime has the memory for the result slice (which a
  \<open>count\<close> of \<open>0\<close> does not need), \<open>Dequeue count\<close> returns no error and a list \<open>res\<close>
  of messages such that:
  \<open>res\<close> is a subsequence of the active messages in insertion order, without repetition
  and of at most \<open>count\<close> messages; every selected message was ready (status queued,
  \<open>ScheduledAt\<close> unset or at or before \<open>now\<close>) and is now sending, with \<open>UpdatedAt\<close>
  set to \<open>now\<close>; no other message has changed; if fewer than \<open>count\<close> messages are
  returned, every ready active message is among them; and when no message occurs twice
  in the slice, \<open>res\<close> is exactly the first \<open>count\<close> ready messages.
\<close>

theorem Dequeue_selects_ready:
  assumes "0 \<le> count" and "8 * count \<le> maxAlloc" and "allocated \<or> count = 0"
  shows "\<exists>res h'. Dequeue count now allocated h q = Inr (res, None, h')
      \<and> subseq res (emails q) \<and> distinct res \<and> int (length res) \<le> count
      \<and> (\<forall>a\<in>set res. ready now h a \<and> h' a = mark_sending now (h a))
      \<and> (\<forall>a. a \<notin> set res \<longrightarrow> h' a = h a)
      \<and> (int (length res) < count \<longrightarrow> (\<forall>a\<in>set (emails q). ready now h a \<longrightarrow> a \<in> set res))
      \<and> (distinct (emails q) \<longrightarrow> res = take (nat count) (filter (ready now h) (emails q)))"
proof -
  obtain res h' where loop: "Dequeue_loop count now (emails q) [] h = (res, h')"
    by (cases "Dequeue_loop count now (emails q) [] h")
  from assms(3) have mem: "\<not> (0 < count \<and> \<not> allocated)" by auto
  from assms(1,2) mem have deq: "Dequeue count now allocated h q = Inr (res, None, h')"
    by (simp only: Dequeue_def makeslice_panics_def loop) simp
  from Dequeue_loop_spec [OF loop] obtain sel where
    s1: "res = [] @ sel" and s2: "subseq sel (emails q)" and s3: "distinct sel" and
    s4: "\<forall>a\<in>set sel. ready now h a \<and> h' a = mark_sending now (h a)" and
    s5: "\<forall>a. a \<notin> set sel \<longrightarrow> h' a = h a" and
    s6: "int (length res) \<le> max (int (length ([]::addr list))) count" and
    s7: "int (length res) < count \<longrightarrow> (\<forall>a\<in>set (emails q). ready now h a \<longrightarrow> a \<in> set sel)"
    by (elim exE conjE) (rule that)
  from s1 have sel: "sel = res" by simp
  from s6 assms(1) have len: "int (length res) \<le> count" by simp
  have dist: "distinct (emails q) \<longrightarrow> res = take (nat count) (filter (ready now h) (emails q))"
    using Dequeue_loop_distinct [of "emails q" "[]" count now h] loop by simp
  show ?thesis
    using deq s2 s3 s4 s5 s7 len dist unfolding sel
    by (intro exI [of _ res] exI [of _ h'] conjI)
qed

theorem Dequeue_selects_ready_witness:
  "(0::int) \<le> 2 \<and> 8 * 2 \<le> maxAlloc \<and> distinct (emails test_queue)
   \<and> (\<exists>res h'. Dequeue 2 100 True test_heap test_queue = Inr (res, None, h') \<and> res = [0, 2]
         \<and> h' 0 = mark_sending 100 (test_heap 0) \<and> h' 1 = test_heap 1
         \<and> h' 2 = mark_sending 100 (test_heap 2))"
proof -
  have c: "(0::int) \<le> 2" "8 * 2 \<le> maxAlloc" by (simp_all add: maxAlloc_def)
  have m: "True \<or> (2::int) = 0" by simp
  have d: "distinct (emails test_queue)" by (simp add: test_queue_def)
  from Dequeue_selects_ready [OF c m, of 100 test_heap test_queue]
  obtain res h' where
    r1: "Dequeue 2 100 True test_heap test_queue = Inr (res, None, h')" and
    r4: "\<forall>a\<in>set res. ready 100 test_heap a \<and> h' a = mark_sending 100 (test_heap a)" and
    r5: "\<forall>a. a \<notin> set res \<longrightarrow> h' a = test_heap a" and
    r7: "distinct (emails test_queue) \<longrightarrow>
         res = take (nat 2) (filter (ready 100 test_heap) (emails test_queue))"
    by (elim exE conjE) (rule that)
  from r7 d have "res = take (nat 2) (filter (ready 100 test_heap) (emails test_queue))"
    by (rule mp)
  then have res: "res = [0, 2]" by (simp only: test_ready)
  have "(0::nat) \<in> set res" "(2::nat) \<in> set res" "(1::nat) \<notin> set res"
    by (simp_all add: res)
  with r4 r5 have "h' 0 = mark_sending 100 (test_heap 0)" "h' 1 = test_heap 1"
    "h' 2 = mark_sending 100 (test_heap 2)" by blast+
  with c d r1 res show ?thesis
    by (intro conjI exI [of _ res] exI [of _ h'])
qed

text \<open>
  Claim C3 as stated quantifies over every \<open>maxCount\<close>: for a negative one \<open>make\<close>
  panics, whatever memory the runtime has, and \<open>Dequeue\<close> returns nothing.
\<close>

theorem Dequeue_negative_count_panics:
  "Dequeue (- 1) 100 True test_heap test_queue = Inl PanicMakesliceCap
   \<and> Dequeue (- 1) 100 False test_heap test_queue = Inl PanicMakesliceCap"
  by (simp add: Dequeue_def makeslice_panics_def)

subsection \<open>Enqueue\<close>

lemma ready_stamp: "ready t (h(e := (h e)\<lparr>UpdatedAt := now\<rparr>)) a = ready t h a"
  by (simp add: ready_def)

lemma Dequeue_one_fresh:
  assumes rdy: "ready now h e" and mem: "e \<in> set es"
    and others: "\<forall>a\<in>set es. a \<noteq> e \<longrightarrow> \<not> ready now h a"
  shows "Dequeue_loop 1 now es [] h = ([e], h(e := mark_sending now (h e)))"
  using mem others
proof (induction es)
  case Nil
  then show ?case by simp
next
  case (Cons x xs)
  show ?case
  proof (cases "x = e")
    case True
    with rdy show ?thesis
      by (simp add: Dequeue_loop_step Dequeue_loop_full fun_eq_iff del: Dequeue_loop.simps(2))
  next
    case False
    with Cons.prems have "\<not> ready now h x" "e \<in> set xs" by auto
    with Cons show ?thesis
      by (simp add: Dequeue_loop_step del: Dequeue_loop.simps(2))
  qed
qed

text \<open>
  Claim C2, as amended. If the active-set size is below the capacity, \<open>Enqueue e\<close>
  succeeds, stamps \<open>UpdatedAt\<close>, leaves every other field of the message (its status
  too) as the caller set it, appends the message to the slice, enters it in the map under
  its identifier and increases \<open>Size\<close> by exactly one; if moreover the message is ready
  at \<open>now'\<close> (status queued, no scheduling delay) and no other active message is ready,
  a subsequent \<open>Dequeue 1\<close> (its result slice allocated) returns exactly this message,
  with status sending. If the size has reached the capacity, \<open>Enqueue\<close> fails with
  \<open>ErrQueueFull\<close> and changes nothing.
\<close>

theorem Enqueue_capacity_and_visibility:
  "(Size q < maxSize q \<longrightarrow>
      (\<exists>h1 q1. Enqueue e now h q = (None, h1, q1)
         \<and> h1 = h(e := (h e)\<lparr>UpdatedAt := now\<rparr>)
         \<and> emails q1 = emails q @ [e] \<and> emailMap q1 = (emailMap q)(ID (h e) \<mapsto> e)
         \<and> maxSize q1 = maxSize q \<and> Size q1 = Size q + 1
         \<and> (ready now' h e \<and> (\<forall>a\<in>set (emails q). a \<noteq> e \<longrightarrow> \<not> ready now' h a)
              \<longrightarrow> Dequeue 1 now' True h1 q1 = Inr ([e], None, h1(e := mark_sending now' (h1 e))))))
   \<and> (maxSize q \<le> Size q \<longrightarrow> Enqueue e now h q = (Some ErrQueueFull, h, q))"
proof (intro conjI impI)
  assume "maxSize q \<le> Size q"
  then show "Enqueue e now h q = (Some ErrQueueFull, h, q)"
    by (simp add: Enqueue_def Size_def)
next
  assume room: "Size q < maxSize q"
  let ?h1 = "h(e := (h e)\<lparr>UpdatedAt := now\<rparr>)"
  let ?q1 = "q\<lparr>emails := emails q @ [e], emailMap := (emailMap q)(ID (h e) \<mapsto> e)\<rparr>"
  from room have enq: "Enqueue e now h q = (None, ?h1, ?q1)"
    by (simp add: Enqueue_def Size_def Let_def)
  have deq: "Dequeue 1 now' True ?h1 ?q1 = Inr ([e], None, ?h1(e := mark_sending now' (?h1 e)))"
    if "ready now' h e \<and> (\<forall>a\<in>set (emails q). a \<noteq> e \<longrightarrow> \<not> ready now' h a)"
  proof -
    from that have r: "ready now' ?h1 e"
      and o: "\<forall>a\<in>set (emails q @ [e]). a \<noteq> e \<longrightarrow> \<not> ready now' ?h1 a"
      by (simp_all only: ready_stamp) simp
    have "Dequeue_loop 1 now' (emails q @ [e]) [] ?h1 = ([e], ?h1(e := mark_sending now' (?h1 e)))"
      by (rule Dequeue_one_fresh [OF r _ o]) simp
    then show ?thesis
      by (simp add: Dequeue_def makeslice_panics_def maxAlloc_def)
  qed
  show "\<exists>h1 q1. Enqueue e now h q = (None, h1, q1)
         \<and> h1 = h(e := (h e)\<lparr>UpdatedAt := now\<rparr>)
         \<and> emails q1 = emails q @ [e] \<and> emailMap q1 = (emailMap q)(ID (h e) \<mapsto> e)
         \<and> maxSize q1 = maxSize q \<and> Size q1 = Size q + 1
         \<and> (ready now' h e \<and> (\<forall>a\<in>set (emails q). a \<noteq> e \<longrightarrow> \<not> ready now' h a)
              \<longrightarrow> Dequeue 1 now' True h1 q1 = Inr ([e], None, h1(e := mark_sending now' (h1 e))))"
  proof (intro exI [of _ ?h1] exI [of _ ?q1] conjI impI)
    show "Enqueue e now h q = (None, ?h1, ?q1)" by (rule enq)
    show "Size ?q1 = Size q + 1" by (simp add: Size_def)
    show "Dequeue 1 now' True ?h1 ?q1 = Inr ([e], None, ?h1(e := mark_sending now' (?h1 e)))"
      if "ready now' h e \<and> (\<forall>a\<in>set (emails q). a \<noteq> e \<longrightarrow> \<not> ready now' h a)"
      using that by (rule deq)
  qed simp_all
qed

theorem Enqueue_capacity_and_visibility_witness:
  "Size (NewMemoryQueue 1) < maxSize (NewMemoryQueue 1)
   \<and> ready 8 test_heap 0 \<and> emails (NewMemoryQueue 1) = []
   \<and> (\<exists>h1 q1. Enqueue 0 7 test_heap (NewMemoryQueue 1) = (None, h1, q1)
         \<and> UpdatedAt (h1 0) = 7 \<and> Status (h1 0) = StatusQueued \<and> Size q1 = 1
         \<and> Dequeue 1 8 True h1 q1 = Inr ([0], None, h1(0 := mark_sending 8 (h1 0)))
         \<and> maxSize q1 \<le> Size q1
         \<and> Enqueue 2 9 h1 q1 = (Some ErrQueueFull, h1, q1))"
proof -
  let ?q = "NewMemoryQueue 1"
  have a: "Size ?q < maxSize ?q" by (simp add: NewMemoryQueue_def Size_def)
  have b: "ready 8 test_heap 0 \<and> (\<forall>a\<in>set (emails ?q). a \<noteq> 0 \<longrightarrow> \<not> ready 8 test_heap a)"
    by (simp add: NewMemoryQueue_def ready_def test_heap_def test_email_def)
  have "Size ?q < maxSize ?q \<longrightarrow>
      (\<exists>h1 q1. Enqueue 0 7 test_heap ?q = (None, h1, q1)
         \<and> h1 = test_heap(0 := (test_heap 0)\<lparr>UpdatedAt := 7\<rparr>)
         \<and> emails q1 = emails ?q @ [0] \<and> emailMap q1 = (emailMap ?q)(ID (test_heap 0) \<mapsto> 0)
         \<and> maxSize q1 = maxSize ?q \<and> Size q1 = Size ?q + 1
         \<and> (ready 8 test_heap 0 \<and> (\<forall>a\<in>set (emails ?q). a \<noteq> 0 \<longrightarrow> \<not> ready 8 test_heap a)
              \<longrightarrow> Dequeue 1 8 True h1 q1 = Inr ([0], None, h1(0 := mark_sending 8 (h1 0)))))"
    by (rule conjunct1 [OF Enqueue_capacity_and_visibility [of ?q 0 7 test_heap 8]])
  from this a have "\<exists>h1 q1. Enqueue 0 7 test_heap ?q = (None, h1, q1)
         \<and> h1 = test_heap(0 := (test_heap 0)\<lparr>UpdatedAt := 7\<rparr>)
         \<and> emails q1 = emails ?q @ [0] \<and> emailMap q1 = (emailMap ?q)(ID (test_heap 0) \<mapsto> 0)
         \<and> maxSize q1 = maxSize ?q \<and> Size q1 = Size ?q + 1
         \<and> (ready 8 test_heap 0 \<and> (\<forall>a\<in>set (emails ?q). a \<noteq> 0 \<longrightarrow> \<not> ready 8 test_heap a)
              \<longrightarrow> Dequeue 1 8 True h1 q1 = Inr ([0], None, h1(0 := mark_sending 8 (h1 0))))"
    by (rule mp)
  then obtain h1 q1 where
    e1: "Enqueue 0 7 test_heap ?q = (None, h1, q1)" and
    e2: "h1 = test_heap(0 := (test_heap 0)\<lparr>UpdatedAt := 7\<rparr>)" and
    e3: "maxSize q1 = maxSize ?q" and
    e4: "Size q1 = Size ?q + 1" and
    e5: "ready 8 test_heap 0 \<and> (\<forall>a\<in>set (emails ?q). a \<noteq> 0 \<longrightarrow> \<not> ready 8 test_heap a)
         \<longrightarrow> Dequeue 1 8 True h1 q1 = Inr ([0], None, h1(0 := mark_sending 8 (h1 0)))"
    by (elim conjE exE) (rule that)
  from e5 b have d: "Dequeue 1 8 True h1 q1 = Inr ([0], None, h1(0 := mark_sending 8 (h1 0)))"
    by (rule mp)
  from e4 have sz: "Size q1 = 1" by (simp add: NewMemoryQueue_def Size_def)
  from e3 sz have full: "maxSize q1 \<le> Size q1" by (simp add: NewMemoryQueue_def)
  have "maxSize q1 \<le> Size q1 \<longrightarrow> Enqueue 2 9 h1 q1 = (Some ErrQueueFull, h1, q1)"
    by (rule conjunct2 [OF Enqueue_capacity_and_visibility [of q1 2 9 h1]])
  from this full have f: "Enqueue 2 9 h1 q1 = (Some ErrQueueFull, h1, q1)" by (rule mp)
  from e2 have u: "UpdatedAt (h1 0) = 7" "Status (h1 0) = StatusQueued"
    by (simp_all add: test_heap_def test_email_def)
  have emp: "emails ?q = []" by (simp add: NewMemoryQueue_def)
  from a conjunct1 [OF b] emp e1 u sz d full f show ?thesis
    by (intro conjI exI [of _ h1] exI [of _ q1])
qed

text \<open>
  Claim C2 as stated fails in two ways. A message enqueued with status pending stays
  pending, and \<open>Dequeue 1\<close> does not return it. And when an earlier ready message is
  in the queue, \<open>Dequeue 1\<close> after \<open>Enqueue\<close> returns that one, not the new message.
\<close>

theorem Enqueue_then_Dequeue_counterexample:
  "(case Enqueue 3 7 test_heap (NewMemoryQueue 10) of
      (r, h1, q1) \<Rightarrow> r = None \<and> Status (h1 3) = StatusPending \<and> Status (h1 3) \<noteq> StatusQueued
        \<and> Dequeue 1 8 True h1 q1 = Inr ([], None, h1))
   \<and> (case Enqueue 2 7 test_heap (test_queue\<lparr>emails := [0], emailMap := [''test-1'' \<mapsto> 0]\<rparr>) of
        (r, h1, q1) \<Rightarrow> r = None \<and> emails q1 = [0, 2] \<and> ScheduledAt (h1 2) = None
          \<and> (case Dequeue 1 8 True h1 q1 of
                 Inl p \<Rightarrow> False
               | Inr (res, err, h2) \<Rightarrow> res = [0] \<and> err = None))"
  by (simp add: Enqueue_def NewMemoryQueue_def Dequeue_def makeslice_panics_def maxAlloc_def
      test_heap_def test_queue_def test_email_def StatusQueued_def StatusPending_def)

subsection \<open>Runs of operations, and the agreement of map and slice\<close>

lemma removeEmail_slice_cong:
  "(\<And>a. a \<in> set es \<Longrightarrow> ID (h1 a) = ID (h a)) \<Longrightarrow> removeEmail_slice i h1 es = removeEmail_slice i h es"
  by (induction es) simp_all

lemma removeEmail_slice_remove1:
  "e \<in> set es \<Longrightarrow> ID (h e) = i \<Longrightarrow> distinct (map (\<lambda>a. ID (h a)) es) \<Longrightarrow>
   removeEmail_slice i h es = remove1 e es"
proof (induction es)
  case Nil
  then show ?case by simp
next
  case (Cons x xs)
  show ?case
  proof (cases "x = e")
    case True
    with Cons.prems show ?thesis by simp
  next
    case False
    with Cons.prems have "e \<in> set xs" by simp
    with Cons.prems have "ID (h x) \<noteq> i" by force
    with Cons False \<open>e \<in> set xs\<close> show ?thesis by simp
  qed
qed

lemma set_removeEmail_slice: "set (removeEmail_slice i h es) \<subseteq> set es"
  by (induction es) auto

lemma in_removeEmail_slice: "a \<in> set (removeEmail_slice i h es) \<Longrightarrow> a \<in> set es"
  using set_removeEmail_slice by blast

text \<open>
  Every step keeps the identifiers and the recipients, returns messages of the slice only,
  and adds at most the enqueued message to the slice.
\<close>

lemma Dequeue_step_facts:
  assumes "Dequeue count now allocated h q = Inr (res, err, h1)"
  shows "set res \<subseteq> set (emails q)" and "\<And>a. ID (h1 a) = ID (h a)" and "\<And>a. To (h1 a) = To (h a)"
proof -
  from assms have np: "\<not> makeslice_panics count"
    and loop: "Dequeue_loop count now (emails q) [] h = (res, h1)"
    by (auto simp: Dequeue_def split: if_splits prod.splits)
  from Dequeue_loop_spec [OF loop] obtain sel where
    s1: "res = [] @ sel" and s2: "subseq sel (emails q)" and
    s4: "\<forall>a\<in>set sel. ready now h a \<and> h1 a = mark_sending now (h a)" and
    s5: "\<forall>a. a \<notin> set sel \<longrightarrow> h1 a = h a"
    by (elim exE conjE) (rule that)
  from s1 s2 show "set res \<subseteq> set (emails q)" by (simp add: subseq_set_subset)
  show "ID (h1 a) = ID (h a)" for a
    using s4 s5 by (cases "a \<in> set sel") (simp_all add: mark_sending_def)
  show "To (h1 a) = To (h a)" for a
    using s4 s5 by (cases "a \<in> set sel") (simp_all add: mark_sending_def)
qed

lemma queue_step_facts:
  assumes "queue_step x h q = Inr (out, h1, q1)"
  shows "set out \<subseteq> set (emails q)"
    and "\<And>a. ID (h1 a) = ID (h a)"
    and "\<And>a. To (h1 a) = To (h a)"
    and "set (emails q1) \<subseteq> set (emails q) \<union> {e. \<exists>now. x = OpEnqueue e now}"
proof -
  have "set out \<subseteq> set (emails q) \<and> (\<forall>a. ID (h1 a) = ID (h a)) \<and> (\<forall>a. To (h1 a) = To (h a))
      \<and> set (emails q1) \<subseteq> set (emails q) \<union> {e. \<exists>now. x = OpEnqueue e now}"
  proof (cases x)
    case (OpEnqueue e now)
    with assms show ?thesis
      by (auto simp: Enqueue_def Let_def split: if_splits)
  next
    case (OpDequeue count now allocated)
    with assms obtain err where d: "Dequeue count now allocated h q = Inr (out, err, h1)"
      and q: "q1 = q"
      by (auto split: sum.splits)
    from Dequeue_step_facts [OF d] q show ?thesis by simp
  next
    case (OpMarkDelivered i now)
    with assms show ?thesis
      by (auto simp: MarkDelivered_def removeEmail_def Let_def split: option.splits
          dest: in_removeEmail_slice)
  next
    case (OpMarkFailed i reason retry now1 now2)
    with assms show ?thesis
      by (auto simp: MarkFailed_def removeEmail_def Let_def split: option.splits if_splits
          dest: in_removeEmail_slice)
  qed
  then show "set out \<subseteq> set (emails q)"
    and "\<And>a. ID (h1 a) = ID (h a)"
    and "\<And>a. To (h1 a) = To (h a)"
    and "set (emails q1) \<subseteq> set (emails q) \<union> {e. \<exists>now. x = OpEnqueue e now}"
    by simp_all
qed

lemma queue_run_To: "queue_run xs h q = (outs, h2, q2) \<Longrightarrow> To (h2 a) = To (h a)"
proof (induction xs arbitrary: h q outs)
  case Nil
  then show ?case by simp
next
  case (Cons x xs)
  show ?case
  proof (cases "queue_step x h q")
    case (Inl p)
    with Cons.prems show ?thesis by simp
  next
    case (Inr r)
    obtain out h1 q1 where r: "r = (out, h1, q1)" by (cases r)
    obtain outs' where run: "queue_run xs h1 q1 = (outs', h2, q2)"
      using Cons.prems Inr r by (auto split: prod.splits)
    from Cons.IH [OF run] queue_step_facts(3) [OF Inr [unfolded r]] show ?thesis by simp
  qed
qed

lemma queue_run_never_returns:
  assumes "\<forall>a\<in>set (emails q). ID (h0 a) \<noteq> i"
    and "\<forall>a. ID (h a) = ID (h0 a)"
    and "\<forall>x\<in>set xs. \<not> enqueues_id h0 i x"
  shows "\<forall>out\<in>set (fst (queue_run xs h q)). \<forall>a\<in>set out. ID (h0 a) \<noteq> i"
  using assms
proof (induction xs arbitrary: h q)
  case Nil
  then show ?case by simp
next
  case (Cons x xs)
  show ?case
  proof (cases "queue_step x h q")
    case (Inl p)
    then show ?thesis by simp
  next
    case (Inr r)
    obtain out h1 q1 where r: "r = (out, h1, q1)" by (cases r)
    note f = queue_step_facts [OF Inr [unfolded r]]
    have out: "\<forall>a\<in>set out. ID (h0 a) \<noteq> i"
      using f(1) Cons.prems(1) by blast
    have ids: "\<forall>a. ID (h1 a) = ID (h0 a)"
      using f(2) Cons.prems(2) by simp
    have notenq: "\<not> enqueues_id h0 i x" using Cons.prems(3) by simp
    have q1: "\<forall>a\<in>set (emails q1). ID (h0 a) \<noteq> i"
    proof
      fix a assume "a \<in> set (emails q1)"
      with f(4) have "a \<in> set (emails q) \<or> (\<exists>now. x = OpEnqueue a now)" by blast
      then show "ID (h0 a) \<noteq> i"
      proof
        assume "a \<in> set (emails q)" with Cons.prems(1) show ?thesis by blast
      next
        assume "\<exists>now. x = OpEnqueue a now"
        with notenq show ?thesis by auto
      qed
    qed
    have "\<forall>out\<in>set (fst (queue_run xs h1 q1)). \<forall>a\<in>set out. ID (h0 a) \<noteq> i"
      using Cons.prems(3) by (intro Cons.IH [OF q1 ids]) simp
    with out Inr r show ?thesis
      by (simp split: prod.splits)
  qed
qed

text \<open>
  When callers keep identifiers unique, the map is the index of the slice by identifier
  in the empty queue and after every operation, and identifiers stay unique. In such a
  state an identifier is active (carried by a message of the slice) exactly when it is a
  key of the map.
\<close>

lemma queue_wf_NewMemoryQueue: "queue_wf h (NewMemoryQueue n)"
  by (simp add: queue_wf_def unique_ids_def NewMemoryQueue_def)

lemma queue_wf_ids:
  "queue_wf h q \<Longrightarrow> (\<And>a. ID (h1 a) = ID (h a)) \<Longrightarrow> queue_wf h1 q"
  by (simp add: queue_wf_def unique_ids_def)

lemma queue_wf_removeEmail:
  assumes wf: "queue_wf h q" and ids: "\<And>a. ID (h1 a) = ID (h a)" and m: "emailMap q i = Some e"
  shows "queue_wf h1 (removeEmail i h1 q)"
proof -
  from wf have u: "distinct (map (\<lambda>a. ID (h a)) (emails q))"
    and idx: "\<And>j a. emailMap q j = Some a \<longleftrightarrow> a \<in> set (emails q) \<and> ID (h a) = j"
    by (simp_all add: queue_wf_def unique_ids_def)
  from idx m have mem: "e \<in> set (emails q)" and eid: "ID (h e) = i" by simp_all
  from u have de: "distinct (emails q)" by (simp add: distinct_map)
  have "removeEmail_slice i h1 (emails q) = removeEmail_slice i h (emails q)"
    by (rule removeEmail_slice_cong) (simp add: ids)
  also have "\<dots> = remove1 e (emails q)"
    by (rule removeEmail_slice_remove1 [OF mem eid u])
  finally have em: "emails (removeEmail i h1 q) = remove1 e (emails q)"
    by (simp add: removeEmail_def)
  have mp: "emailMap (removeEmail i h1 q) = (emailMap q)(i := None)"
    by (simp add: removeEmail_def)
  have inj: "a = e" if "a \<in> set (emails q)" "ID (h a) = i" for a
    using u that mem eid by (metis distinct_map inj_onD)
  have u1: "distinct (map (\<lambda>a. ID (h1 a)) (remove1 e (emails q)))"
  proof -
    have "distinct (map (\<lambda>a. ID (h a)) (remove1 e (emails q)))"
      using u by (simp add: distinct_map inj_on_def)
    then show ?thesis by (simp add: ids)
  qed
  have idx1: "((emailMap q)(i := None)) j = Some a \<longleftrightarrow> a \<in> set (remove1 e (emails q)) \<and> ID (h1 a) = j"
    for j a
  proof (cases "j = i")
    case True
    then show ?thesis using de inj [of a] by (auto simp: ids)
  next
    case False
    then show ?thesis using de idx [of j a] eid by (auto simp: ids)
  qed
  show ?thesis
    unfolding queue_wf_def unique_ids_def em mp using u1 idx1 by simp
qed

lemma queue_wf_step:
  assumes wf: "queue_wf h q" and fresh: "fresh_step h q x"
    and step: "queue_step x h q = Inr (out, h1, q1)"
  shows "queue_wf h1 q1"
proof (cases x)
  case (OpEnqueue e now)
  show ?thesis
  proof (cases "int (length (emails q)) \<ge> maxSize q")
    case True
    with OpEnqueue step wf show ?thesis by (simp add: Enqueue_def)
  next
    case False
    with OpEnqueue step have h1: "h1 = h(e := (h e)\<lparr>UpdatedAt := now\<rparr>)"
      and q1: "q1 = q\<lparr>emails := emails q @ [e], emailMap := (emailMap q)(ID (h e) \<mapsto> e)\<rparr>"
      by (auto simp: Enqueue_def Let_def)
    have ids: "\<And>a. ID (h1 a) = ID (h a)" by (simp add: h1)
    from fresh OpEnqueue have "ID (h e) \<notin> (\<lambda>a. ID (h a)) ` set (emails q)" by simp
    then have fr: "\<forall>a\<in>set (emails q). ID (h a) \<noteq> ID (h e)" by (metis imageI)
    from wf have u: "distinct (map (\<lambda>a. ID (h a)) (emails q))"
      and idx: "\<And>j a. emailMap q j = Some a \<longleftrightarrow> a \<in> set (emails q) \<and> ID (h a) = j"
      by (simp_all add: queue_wf_def unique_ids_def)
    have u1: "distinct (map (\<lambda>a. ID (h1 a)) (emails q @ [e]))"
      using u fr by (auto simp: ids)
    have idx1: "((emailMap q)(ID (h e) \<mapsto> e)) j = Some a
        \<longleftrightarrow> a \<in> set (emails q @ [e]) \<and> ID (h1 a) = j" for j a
    proof (cases "j = ID (h e)")
      case True
      then show ?thesis using fr by (auto simp: ids)
    next
      case False
      then show ?thesis using idx [of j a] by (auto simp: ids)
    qed
    show ?thesis
      unfolding queue_wf_def unique_ids_def q1 using u1 idx1 by simp
  qed
next
  case (OpDequeue count now allocated)
  with step obtain err where d: "Dequeue count now allocated h q = Inr (out, err, h1)"
    and q: "q1 = q"
    by (auto split: sum.splits)
  from Dequeue_step_facts(2) [OF d] wf q show ?thesis
    by (simp add: queue_wf_ids)
next
  case (OpMarkDelivered i now)
  show ?thesis
  proof (cases "emailMap q i")
    case None
    with OpMarkDelivered step wf show ?thesis by (simp add: MarkDelivered_def)
  next
    case (Some e)
    with OpMarkDelivered step
    have h1: "h1 = h(e := (h e)\<lparr>Status := StatusDelivered, UpdatedAt := now, DeliveredAt := Some now\<rparr>)"
      and q1: "q1 = removeEmail i h1 q"
      by (auto simp: MarkDelivered_def Let_def)
    have "\<And>a. ID (h1 a) = ID (h a)" by (simp add: h1)
    with wf show ?thesis unfolding q1 using Some by (rule queue_wf_removeEmail)
  qed
next
  case (OpMarkFailed i reason retry now1 now2)
  show ?thesis
  proof (cases "emailMap q i")
    case None
    with OpMarkFailed step wf show ?thesis by (simp add: MarkFailed_def)
  next
    case (Some e)
    show ?thesis
    proof (cases retry)
      case True
      with Some OpMarkFailed step have "q1 = q" and "\<And>a. ID (h1 a) = ID (h a)"
        by (auto simp: MarkFailed_def Let_def)
      with wf show ?thesis by (simp add: queue_wf_ids)
    next
      case False
      with Some OpMarkFailed step have q1: "q1 = removeEmail i h1 q"
        and "\<And>a. ID (h1 a) = ID (h a)"
        by (auto simp: MarkFailed_def Let_def)
      with wf show ?thesis unfolding q1 using Some by (intro queue_wf_removeEmail)
    qed
  qed
qed

lemma queue_wf_run:
  "queue_wf h q \<Longrightarrow> fresh_run xs h q \<Longrightarrow> queue_run xs h q = (outs, h2, q2) \<Longrightarrow> queue_wf h2 q2"
proof (induction xs arbitrary: h q outs)
  case Nil
  then show ?case by simp
next
  case (Cons x xs)
  show ?case
  proof (cases "queue_step x h q")
    case (Inl p)
    with Cons.prems show ?thesis by simp
  next
    case (Inr r)
    obtain out h1 q1 where r: "r = (out, h1, q1)" by (cases r)
    obtain outs' where run: "queue_run xs h1 q1 = (outs', h2, q2)"
      using Cons.prems Inr r by (auto split: prod.splits)
    from Cons.prems(2) Inr r have fs: "fresh_step h q x" and fr: "fresh_run xs h1 q1" by simp_all
    from queue_wf_step [OF Cons.prems(1) fs Inr [unfolded r]] fr run show ?thesis
      by (rule Cons.IH)
  qed
qed

lemma queue_wf_active:
  assumes "queue_wf h q"
  shows "unique_ids h q"
    and "emailMap q i = None \<longleftrightarrow> i \<notin> set (map (\<lambda>a. ID (h a)) (emails q))"
    and "emailMap q i = Some e \<longleftrightarrow> e \<in> set (emails q) \<and> ID (h e) = i"
proof -
  from assms show "unique_ids h q" by (simp add: queue_wf_def)
  from assms have idx: "\<And>j a. emailMap q j = Some a \<longleftrightarrow> a \<in> set (emails q) \<and> ID (h a) = j"
    by (simp add: queue_wf_def)
  then show "emailMap q i = Some e \<longleftrightarrow> e \<in> set (emails q) \<and> ID (h e) = i" by simp
  show "emailMap q i = None \<longleftrightarrow> i \<notin> set (map (\<lambda>a. ID (h a)) (emails q))"
  proof (cases "emailMap q i")
    case None
    with idx have "\<And>a. a \<in> set (emails q) \<Longrightarrow> ID (h a) \<noteq> i" by (metis option.distinct(1))
    with None show ?thesis by auto
  next
    case (Some a)
    with idx have "a \<in> set (emails q)" "ID (h a) = i" by simp_all
    with Some show ?thesis by auto
  qed
qed

lemma test_queue_wf: "queue_wf test_heap test_queue"
  unfolding queue_wf_def unique_ids_def
proof (intro conjI allI)
  show "distinct (map (\<lambda>a. ID (test_heap a)) (emails test_queue))"
    by (simp add: test_queue_def test_heap_def test_email_def)
  fix i e
  show "emailMap test_queue i = Some e \<longleftrightarrow> e \<in> set (emails test_queue) \<and> ID (test_heap e) = i"
    by (auto simp: test_queue_def test_heap_def test_email_def split: if_splits)
qed

subsection \<open>MarkDelivered\<close>

lemma MarkDelivered_effect:
  "(emailMap q i = None \<longrightarrow> MarkDelivered i now h q = (Some ErrEmailNotFound, h, q))
   \<and> (emailMap q i = Some e \<and> e \<in> set (emails q) \<and> ID (h e) = i \<and> unique_ids h q \<longrightarrow>
        (\<exists>h1 q1. MarkDelivered i now h q = (None, h1, q1)
           \<and> h1 = h(e := (h e)\<lparr>Status := StatusDelivered, UpdatedAt := now, DeliveredAt := Some now\<rparr>)
           \<and> emails q1 = remove1 e (emails q) \<and> e \<notin> set (emails q1)
           \<and> emailMap q1 = (emailMap q)(i := None)
           \<and> Size q1 = Size q - 1
           \<and> (\<forall>xs. (\<forall>x\<in>set xs. \<not> enqueues_id h i x) \<longrightarrow>
                 (\<forall>out\<in>set (fst (queue_run xs h1 q1)). \<forall>a\<in>set out. ID (h a) \<noteq> i))))"
proof (intro conjI impI)
  assume "emailMap q i = None"
  then show "MarkDelivered i now h q = (Some ErrEmailNotFound, h, q)"
    by (simp add: MarkDelivered_def)
next
  assume a: "emailMap q i = Some e \<and> e \<in> set (emails q) \<and> ID (h e) = i \<and> unique_ids h q"
  then have m: "emailMap q i = Some e" and mem: "e \<in> set (emails q)" and eid: "ID (h e) = i"
    and u: "distinct (map (\<lambda>a. ID (h a)) (emails q))"
    by (simp_all add: unique_ids_def)
  let ?h1 = "h(e := (h e)\<lparr>Status := StatusDelivered, UpdatedAt := now, DeliveredAt := Some now\<rparr>)"
  let ?q1 = "removeEmail i ?h1 q"
  have ids: "\<forall>a. ID (?h1 a) = ID (h a)" by simp
  have md: "MarkDelivered i now h q = (None, ?h1, ?q1)"
    using m by (simp add: MarkDelivered_def Let_def)
  have "removeEmail_slice i ?h1 (emails q) = removeEmail_slice i h (emails q)"
    by (rule removeEmail_slice_cong) simp
  also have "\<dots> = remove1 e (emails q)"
    by (rule removeEmail_slice_remove1 [OF mem eid u])
  finally have em: "emails ?q1 = remove1 e (emails q)" by (simp add: removeEmail_def)
  from u have de: "distinct (emails q)" by (simp add: distinct_map)
  with em have notin: "e \<notin> set (emails ?q1)" by simp
  have mp: "emailMap ?q1 = (emailMap q)(i := None)" by (simp add: removeEmail_def)
  from em mem have sz: "Size ?q1 = Size q - 1"
    by (simp add: Size_def length_remove1) (cases "emails q"; simp)
  have noid: "\<forall>a\<in>set (emails ?q1). ID (h a) \<noteq> i"
  proof
    fix a assume "a \<in> set (emails ?q1)"
    with em de have "a \<in> set (emails q)" "a \<noteq> e" by auto
    with u mem eid show "ID (h a) \<noteq> i"
      by (metis distinct_map inj_onD)
  qed
  have never: "\<forall>xs. (\<forall>x\<in>set xs. \<not> enqueues_id h i x) \<longrightarrow>
                 (\<forall>out\<in>set (fst (queue_run xs ?h1 ?q1)). \<forall>a\<in>set out. ID (h a) \<noteq> i)"
    using queue_run_never_returns [OF noid ids] by blast
  show "\<exists>h1 q1. MarkDelivered i now h q = (None, h1, q1)
           \<and> h1 = h(e := (h e)\<lparr>Status := StatusDelivered, UpdatedAt := now, DeliveredAt := Some now\<rparr>)
           \<and> emails q1 = remove1 e (emails q) \<and> e \<notin> set (emails q1)
           \<and> emailMap q1 = (emailMap q)(i := None)
           \<and> Size q1 = Size q - 1
           \<and> (\<forall>xs. (\<forall>x\<in>set xs. \<not> enqueues_id h i x) \<longrightarrow>
                 (\<forall>out\<in>set (fst (queue_run xs h1 q1)). \<forall>a\<in>set out. ID (h a) \<noteq> i))"
    using md em notin mp sz never
    by (intro exI [of _ ?h1] exI [of _ ?q1] conjI) simp_all
qed

text \<open>
  Claim C7. In a state where identifiers are unique and the map indexes the slice (every
  state that callers with unique identifiers reach), \<open>MarkDelivered i\<close> fails with
  \<open>ErrEmailNotFound\<close> and changes nothing when no active message carries \<open>i\<close>. When
  the active message \<open>e\<close> carries \<open>i\<close>, it sets the status of \<open>e\<close> to delivered,
  stamps \<open>DeliveredAt\<close> and \<open>UpdatedAt\<close> with \<open>now\<close>, removes \<open>e\<close> from the slice
  and the key from the map, so that no active message carries \<open>i\<close> any more and
  \<open>Size\<close> has decreased by exactly one; and in every later run of queue operations in
  which no message with this identifier is enqueued, no \<open>Dequeue\<close> returns a message
  with this identifier.
\<close>

theorem MarkDelivered_removes:
  assumes "queue_wf h q"
  shows "(i \<notin> set (map (\<lambda>a. ID (h a)) (emails q)) \<longrightarrow>
            MarkDelivered i now h q = (Some ErrEmailNotFound, h, q))
   \<and> (\<forall>e. e \<in> set (emails q) \<and> ID (h e) = i \<longrightarrow>
        (\<exists>h1 q1. MarkDelivered i now h q = (None, h1, q1)
           \<and> h1 = h(e := (h e)\<lparr>Status := StatusDelivered, UpdatedAt := now, DeliveredAt := Some now\<rparr>)
           \<and> emails q1 = remove1 e (emails q) \<and> e \<notin> set (emails q1)
           \<and> i \<notin> set (map (\<lambda>a. ID (h1 a)) (emails q1))
           \<and> emailMap q1 = (emailMap q)(i := None)
           \<and> Size q1 = Size q - 1
           \<and> queue_wf h1 q1
           \<and> (\<forall>xs. (\<forall>x\<in>set xs. \<not> enqueues_id h i x) \<longrightarrow>
                 (\<forall>out\<in>set (fst (queue_run xs h1 q1)). \<forall>a\<in>set out. ID (h a) \<noteq> i))))"
proof (intro conjI allI impI)
  assume "i \<notin> set (map (\<lambda>a. ID (h a)) (emails q))"
  then have "emailMap q i = None" by (rule iffD2 [OF queue_wf_active(2) [OF assms]])
  then show "MarkDelivered i now h q = (Some ErrEmailNotFound, h, q)"
    by (simp add: MarkDelivered_def)
next
  fix e assume a: "e \<in> set (emails q) \<and> ID (h e) = i"
  then have m: "emailMap q i = Some e" by (rule iffD2 [OF queue_wf_active(3) [OF assms]])
  note u = queue_wf_active(1) [OF assms]
  from m a u have hyp: "emailMap q i = Some e \<and> e \<in> set (emails q) \<and> ID (h e) = i \<and> unique_ids h q"
    by simp
  from MarkDelivered_effect [of q i now h e, THEN conjunct2] hyp
  have "\<exists>h1 q1. MarkDelivered i now h q = (None, h1, q1)
           \<and> h1 = h(e := (h e)\<lparr>Status := StatusDelivered, UpdatedAt := now, DeliveredAt := Some now\<rparr>)
           \<and> emails q1 = remove1 e (emails q) \<and> e \<notin> set (emails q1)
           \<and> emailMap q1 = (emailMap q)(i := None)
           \<and> Size q1 = Size q - 1
           \<and> (\<forall>xs. (\<forall>x\<in>set xs. \<not> enqueues_id h i x) \<longrightarrow>
                 (\<forall>out\<in>set (fst (queue_run xs h1 q1)). \<forall>a\<in>set out. ID (h a) \<noteq> i))"
    by (rule mp)
  then obtain h1 q1 where
    r1: "MarkDelivered i now h q = (None, h1, q1)" and
    r2: "h1 = h(e := (h e)\<lparr>Status := StatusDelivered, UpdatedAt := now, DeliveredAt := Some now\<rparr>)" and
    r3: "emails q1 = remove1 e (emails q)" and r4: "e \<notin> set (emails q1)" and
    r5: "emailMap q1 = (emailMap q)(i := None)" and
    r6: "Size q1 = Size q - 1" and
    r7: "\<forall>xs. (\<forall>x\<in>set xs. \<not> enqueues_id h i x) \<longrightarrow>
                 (\<forall>out\<in>set (fst (queue_run xs h1 q1)). \<forall>a\<in>set out. ID (h a) \<noteq> i)"
    by (elim exE conjE) (rule that)
  have ids: "\<And>a. ID (h1 a) = ID (h a)" by (simp add: r2)
  from r1 m have "q1 = removeEmail i h1 q" by (auto simp: MarkDelivered_def Let_def)
  with queue_wf_removeEmail [OF assms ids m] have wf1: "queue_wf h1 q1" by simp
  have "emailMap q1 i = None" by (simp add: r5)
  then have gone: "i \<notin> set (map (\<lambda>a. ID (h1 a)) (emails q1))"
    by (rule iffD1 [OF queue_wf_active(2) [OF wf1]])
  from r1 r2 r3 r4 gone r5 r6 wf1 r7
  show "\<exists>h1 q1. MarkDelivered i now h q = (None, h1, q1)
           \<and> h1 = h(e := (h e)\<lparr>Status := StatusDelivered, UpdatedAt := now, DeliveredAt := Some now\<rparr>)
           \<and> emails q1 = remove1 e (emails q) \<and> e \<notin> set (emails q1)
           \<and> i \<notin> set (map (\<lambda>a. ID (h1 a)) (emails q1))
           \<and> emailMap q1 = (emailMap q)(i := None)
           \<and> Size q1 = Size q - 1
           \<and> queue_wf h1 q1
           \<and> (\<forall>xs. (\<forall>x\<in>set xs. \<not> enqueues_id h i x) \<longrightarrow>
                 (\<forall>out\<in>set (fst (queue_run xs h1 q1)). \<forall>a\<in>set out. ID (h a) \<noteq> i))"
    by (intro exI [of _ h1] exI [of _ q1] conjI)
qed

theorem MarkDelivered_removes_witness:
  "queue_wf test_heap test_queue
   \<and> 0 \<in> set (emails test_queue) \<and> ID (test_heap 0) = ''test-1''
   \<and> (\<exists>h1 q1. MarkDelivered ''test-1'' 200 test_heap test_queue = (None, h1, q1)
         \<and> Status (h1 0) = StatusDelivered \<and> DeliveredAt (h1 0) = Some 200 \<and> UpdatedAt (h1 0) = 200
         \<and> emails q1 = [1, 2] \<and> Size q1 = 2 \<and> emailMap q1 ''test-1'' = None
         \<and> (\<forall>out\<in>set (fst (queue_run
                 [OpDequeue 5 600 True, OpMarkFailed ''test-2'' ''refused'' True 601 601, OpDequeue 5 700 True]
                 h1 q1)).
               \<forall>a\<in>set out. ID (test_heap a) \<noteq> ''test-1''))
   \<and> ''test-9'' \<notin> set (map (\<lambda>a. ID (test_heap a)) (emails test_queue))
   \<and> MarkDelivered ''test-9'' 200 test_heap test_queue = (Some ErrEmailNotFound, test_heap, test_queue)"
proof -
  let ?xs = "[OpDequeue 5 600 True, OpMarkFailed ''test-2'' ''refused'' True 601 601, OpDequeue 5 700 True]"
  note wf = test_queue_wf
  have a: "0 \<in> set (emails test_queue) \<and> ID (test_heap 0) = ''test-1''"
    by (simp add: test_queue_def test_heap_def test_email_def)
  have n: "''test-9'' \<notin> set (map (\<lambda>a. ID (test_heap a)) (emails test_queue))"
    by (simp add: test_queue_def test_heap_def test_email_def)
  note md = MarkDelivered_removes [OF wf, of _ 200]
  from conjunct1 [OF md [of "''test-9''"]] n
  have nf: "MarkDelivered ''test-9'' 200 test_heap test_queue = (Some ErrEmailNotFound, test_heap, test_queue)"
    by (rule mp)
  from conjunct2 [OF md [of "''test-1''"], rule_format, OF a]
  obtain h1 q1 where
    r1: "MarkDelivered ''test-1'' 200 test_heap test_queue = (None, h1, q1)" and
    r2: "h1 = test_heap(0 := (test_heap 0)\<lparr>Status := StatusDelivered, UpdatedAt := 200, DeliveredAt := Some 200\<rparr>)" and
    r3: "emails q1 = remove1 0 (emails test_queue)" and
    r5: "emailMap q1 = (emailMap test_queue)(''test-1'' := None)" and
    r6: "Size q1 = Size test_queue - 1" and
    r7: "\<forall>xs. (\<forall>x\<in>set xs. \<not> enqueues_id test_heap ''test-1'' x) \<longrightarrow>
                 (\<forall>out\<in>set (fst (queue_run xs h1 q1)). \<forall>a\<in>set out. ID (test_heap a) \<noteq> ''test-1'')"
    by (elim exE conjE) (rule that)
  have "\<forall>x\<in>set ?xs. \<not> enqueues_id test_heap ''test-1'' x" by simp
  with r7 have never: "\<forall>out\<in>set (fst (queue_run ?xs h1 q1)). \<forall>a\<in>set out. ID (test_heap a) \<noteq> ''test-1''"
    by blast
  from r2 have f: "Status (h1 0) = StatusDelivered" "DeliveredAt (h1 0) = Some 200" "UpdatedAt (h1 0) = 200"
    by simp_all
  from r3 have em: "emails q1 = [1, 2]" by (simp add: test_queue_def)
  from r6 have sz: "Size q1 = 2" by (simp add: test_queue_def Size_def)
  from r5 have mp: "emailMap q1 ''test-1'' = None" by simp
  from wf conjunct1 [OF a] conjunct2 [OF a] n nf r1 f em sz mp never show ?thesis
    by (intro conjI exI [of _ h1] exI [of _ q1])
qed

subsection \<open>MarkFailed\<close>

text \<open>
  What \<open>MarkFailed\<close> does: it fails with \<open>ErrEmailNotFound\<close> for an unknown
  identifier; with a retry it records the reason, stamps \<open>UpdatedAt\<close>, sets the status
  back to queued, adds one to the retry count and schedules the message at \<open>now2\<close> plus
  the new retry count times five minutes, and the slice and the map stay as they are;
  without a retry it sets the status to failed and removes the message. While the retry
  count stays below 30744573 the \<open>int64\<close> product does not wrap, and the delay is the
  retry count times five minutes in nanoseconds.
\<close>

lemma MarkFailed_not_found:
  "emailMap q i = None \<Longrightarrow> MarkFailed i reason retry now1 now2 h q = (Some ErrEmailNotFound, h, q)"
  by (simp add: MarkFailed_def)

lemma MarkFailed_retry_effect:
  assumes "emailMap q i = Some e"
  shows "MarkFailed i reason True now1 now2 h q =
     (None,
      h(e := (h e)\<lparr>LastError := reason, UpdatedAt := now1, Status := StatusQueued,
                  RetryCount := RetryCount (h e) + 1,
                  ScheduledAt := Some (Add now2 ((RetryCount (h e) + 1) * 5 * Minute))\<rparr>),
      q)"
  using assms by (simp add: MarkFailed_def Let_def)

lemma MarkFailed_permanent_effect:
  assumes "emailMap q i = Some e"
  shows "MarkFailed i reason False now1 now2 h q =
     (None,
      h(e := (h e)\<lparr>LastError := reason, UpdatedAt := now1, Status := StatusFailed\<rparr>),
      removeEmail i h q)"
proof -
  let ?h2 = "h(e := (h e)\<lparr>LastError := reason, UpdatedAt := now1, Status := StatusFailed\<rparr>)"
  have "removeEmail_slice i ?h2 (emails q) = removeEmail_slice i h (emails q)"
    by (rule removeEmail_slice_cong) simp
  then have "removeEmail i ?h2 q = removeEmail i h q" by (simp add: removeEmail_def)
  with assms show ?thesis by (simp add: MarkFailed_def Let_def)
qed

lemma retry_delay_linear:
  fixes rc :: go_int
  assumes "0 \<le> sint rc" and "sint rc < 30744573"
  shows "sint ((rc + 1) * 5 * Minute) = (sint rc + 1) * 300000000000"
proof -
  define x where "x = (sint rc + 1) * 300000000000"
  have w: "(rc + 1) * 5 * Minute = (word_of_int x :: go_int)"
    by (simp add: Minute_def x_def)
  have lo: "- (2 ^ (LENGTH(64) - 1)) \<le> x"
    using assms(1) by (simp add: x_def)
  have hi: "x < 2 ^ (LENGTH(64) - 1)"
    using assms(2) by (simp add: x_def)
  have "sint (word_of_int x :: go_int) = x"
    unfolding sint_sbintrunc' by (rule signed_take_bit_int_eq_self [OF lo hi])
  with w show ?thesis by (simp only: x_def)
qed

text \<open>
  Claim C1 says that the base delay of the backoff is a configured duration. The queue
  takes five minutes, whatever \<open>RetryDelay\<close> the configuration holds (the constructor
  receives the capacity only): with a \<open>RetryDelay\<close> of one minute, the first failure of
  the test message at the instant \<open>1000\<close> schedules it five minutes later, not one
  minute later. The other parts of the claim hold at this input: no error, the status is
  queued again, the retry count is one, the size is unchanged.
\<close>

theorem MarkFailed_ignores_configured_RetryDelay:
  "(let cfg = DefaultConfig_Queue\<lparr>RetryDelay := Minute\<rparr>;
        q0 = NewMemoryQueue (MaxSize cfg)
    in case Enqueue 0 0 test_heap q0 of
         (_, h1, q1) \<Rightarrow>
           (case MarkFailed ''test-1'' ''Connection refused'' True 1000 1000 h1 q1 of
              (r, h2, q2) \<Rightarrow>
                r = None \<and> Size q2 = Size q1 \<and> Status (h2 0) = StatusQueued
                \<and> RetryCount (h2 0) = 1
                \<and> ScheduledAt (h2 0) = Some (1000 + 300000000000)
                \<and> Add 1000 (RetryCount (h2 0) * RetryDelay cfg) = 1000 + 60000000000
                \<and> ScheduledAt (h2 0) \<noteq> Some (Add 1000 (RetryCount (h2 0) * RetryDelay cfg))))"
  by (simp add: DefaultConfig_Queue_def NewMemoryQueue_def Enqueue_def MarkFailed_def Let_def
      test_heap_def test_email_def Add_def Minute_def Size_def)

section \<open>Properties of the delivery service\<close>

subsection \<open>Domain extraction\<close>

lemma Split_not_Nil: "Split s c \<noteq> []"
  by (induction s) (auto split: list.splits)

lemma length_Split: "length (Split s c) = Suc (count_list s c)"
  by (induction s) (auto simp: Split_not_Nil split: list.splits)

lemma Split_no_sep: "c \<notin> set s \<Longrightarrow> Split s c = [s]"
  by (induction s) auto

lemma Split_first_sep: "c \<notin> set u \<Longrightarrow> Split (u @ c # v) c = u # Split v c"
  by (induction u) auto

lemma count_list_one:
  assumes "count_list a c = 1"
  shows "\<exists>u v. a = u @ c # v \<and> c \<notin> set u \<and> c \<notin> set v"
proof -
  have "count_list a c \<noteq> 0" using assms by simp
  then have "c \<in> set a" by (simp add: count_list_0_iff)
  then obtain u v where a: "a = u @ c # v" and u: "c \<notin> set u"
    by (auto dest: split_list_first)
  with assms have "count_list v c = 0" by simp
  then have "c \<notin> set v" by (simp add: count_list_0_iff)
  with a u show ?thesis by blast
qed

lemma extractDomain_one_at:
  "c = CHR ''@'' \<Longrightarrow> c \<notin> set u \<Longrightarrow> c \<notin> set v \<Longrightarrow> extractDomain (u @ c # v) = v"
  by (simp add: extractDomain_def Split_first_sep Split_no_sep)

lemma extractDomain_empty_iff:
  "extractDomain a = [] \<longleftrightarrow> count_list a (CHR ''@'') \<noteq> 1 \<or> (\<exists>local. a = local @ ''@'')"
proof (cases "count_list a (CHR ''@'') = 1")
  case False
  then have "length (Split a (CHR ''@'')) \<noteq> 2" by (simp add: length_Split)
  then have "extractDomain a = []" by (simp add: extractDomain_def)
  with False show ?thesis by simp
next
  case True
  from count_list_one [OF True] obtain u v where a: "a = u @ CHR ''@'' # v"
    and u: "CHR ''@'' \<notin> set u" and v: "CHR ''@'' \<notin> set v"
    by (elim exE conjE) (rule that)
  have d: "extractDomain a = v" unfolding a by (rule extractDomain_one_at [OF refl u v])
  show ?thesis
  proof (cases "v = []")
    case e: True
    with a have "a = u @ ''@''" by simp
    then have ex: "\<exists>local. a = local @ ''@''" by (rule exI)
    from d e have "extractDomain a = []" by simp
    with ex show ?thesis by blast
  next
    case ne: False
    have nex: "\<not> (\<exists>local. a = local @ ''@'')"
    proof
      assume "\<exists>local. a = local @ ''@''"
      then obtain l where "a = l @ ''@''" by (rule exE)
      then have "last a = CHR ''@''" by simp
      moreover have "last a = last v" unfolding a using ne by simp
      moreover have "last v \<in> set v" using ne by (rule last_in_set)
      ultimately show False using v by simp
    qed
    from d ne have "extractDomain a \<noteq> []" by simp
    with nex True show ?thesis by blast
  qed
qed

lemma processEmail_valid_domain:
  assumes "To e = a # rest" and "extractDomain a \<noteq> []"
  shows "processEmail e now1 now2 LookupMX Send s =
     (case getMXRecords (extractDomain a) now1 now2 LookupMX s of
        (Inl err, s1, n) \<Rightarrow> (Some (Errorf_w ''failed to get MX records: '' err), s1, [], n)
      | (Inr mxRecords, s1, n) \<Rightarrow>
          (case Send_loop Send e mxRecords None [] of
             (True, _, tried) \<Rightarrow> (None, s1, tried, n)
           | (False, Some lastErr, tried) \<Rightarrow>
               (Some (Errorf_w ''all MX servers failed: '' lastErr), s1, tried, n)
           | (False, None, tried) \<Rightarrow> (Some (Errorf ''no MX servers found''), s1, tried, n)))"
  using assms by (simp add: processEmail_def)

lemma processEmail_invalid_iff:
  assumes "To e = a # rest"
  shows "fst (processEmail e now1 now2 LookupMX Send s) = Some (Errorf ''invalid recipient domain'')
         \<longleftrightarrow> extractDomain a = []"
proof (cases "extractDomain a = []")
  case True
  with assms show ?thesis by (simp add: processEmail_def)
next
  case False
  obtain r s1 n where g: "getMXRecords (extractDomain a) now1 now2 LookupMX s = (r, s1, n)"
    by (cases "getMXRecords (extractDomain a) now1 now2 LookupMX s")
  show ?thesis
  proof (cases r)
    case (Inl err)
    with g False show ?thesis
      by (simp add: processEmail_valid_domain [OF assms False])
  next
    case (Inr recs)
    obtain ok lastErr tried where l: "Send_loop Send e recs None [] = (ok, lastErr, tried)"
      by (cases "Send_loop Send e recs None []")
    show ?thesis
    proof (cases ok)
      case True
      with g Inr l False show ?thesis
        by (simp add: processEmail_valid_domain [OF assms False])
    next
      case no: False
      with g Inr l False show ?thesis
        by (cases lastErr) (simp_all add: processEmail_valid_domain [OF assms False])
    qed
  qed
qed

text \<open>
  Claim C10. For a message whose first \<open>To\<close> address is \<open>a\<close>: if \<open>a\<close> does not hold
  exactly one \<open>@\<close> (none, or two or more), or ends with its \<open>@\<close> (an empty domain
  part), \<open>processEmail\<close> returns the invalid-domain error, with the service unchanged,
  no host tried and no call of the resolver; and these are the only addresses for which
  it returns this error.
\<close>

theorem extractDomain_exactly_one_at:
  assumes "To e = a # rest"
  shows "(count_list a (CHR ''@'') \<noteq> 1 \<or> (\<exists>local. a = local @ ''@'')
            \<longrightarrow> processEmail e now1 now2 LookupMX Send s
                  = (Some (Errorf ''invalid recipient domain''), s, [], 0))
         \<and> (fst (processEmail e now1 now2 LookupMX Send s) = Some (Errorf ''invalid recipient domain'')
            \<longleftrightarrow> count_list a (CHR ''@'') \<noteq> 1 \<or> (\<exists>local. a = local @ ''@''))"
proof (intro conjI impI)
  assume "count_list a (CHR ''@'') \<noteq> 1 \<or> (\<exists>local. a = local @ ''@'')"
  then have "extractDomain a = []" by (simp only: extractDomain_empty_iff)
  with assms show "processEmail e now1 now2 LookupMX Send s
                  = (Some (Errorf ''invalid recipient domain''), s, [], 0)"
    by (simp add: processEmail_def)
next
  show "fst (processEmail e now1 now2 LookupMX Send s) = Some (Errorf ''invalid recipient domain'')
            \<longleftrightarrow> count_list a (CHR ''@'') \<noteq> 1 \<or> (\<exists>local. a = local @ ''@'')"
    by (simp only: processEmail_invalid_iff [OF assms] extractDomain_empty_iff)
qed

theorem extractDomain_exactly_one_at_witness:
  "To (test_email\<lparr>To := [''a@b@c'']\<rparr>) = ''a@b@c'' # [] \<and> count_list ''a@b@c'' (CHR ''@'') = 2
   \<and> processEmail (test_email\<lparr>To := [''a@b@c'']\<rparr>) 0 0 mock_LookupMX mock_Send_ok test_service
       = (Some (Errorf ''invalid recipient domain''), test_service, [], 0)
   \<and> To (test_email\<lparr>To := [''user@'']\<rparr>) = ''user@'' # [] \<and> ''user@'' = ''user'' @ ''@''
   \<and> processEmail (test_email\<lparr>To := [''user@'']\<rparr>) 0 0 mock_LookupMX mock_Send_ok test_service
       = (Some (Errorf ''invalid recipient domain''), test_service, [], 0)
   \<and> To (test_email\<lparr>To := [''nobody'']\<rparr>) = ''nobody'' # [] \<and> count_list ''nobody'' (CHR ''@'') = 0
   \<and> processEmail (test_email\<lparr>To := [''nobody'']\<rparr>) 0 0 mock_LookupMX mock_Send_ok test_service
       = (Some (Errorf ''invalid recipient domain''), test_service, [], 0)
   \<and> To test_email = ''recipient@example.com'' # [] \<and> count_list ''recipient@example.com'' (CHR ''@'') = 1
   \<and> fst (processEmail test_email 0 0 mock_LookupMX mock_Send_ok test_service)
       \<noteq> Some (Errorf ''invalid recipient domain'')"
proof -
  have t1: "To (test_email\<lparr>To := [''a@b@c'']\<rparr>) = ''a@b@c'' # []"
    and t2: "To (test_email\<lparr>To := [''user@'']\<rparr>) = ''user@'' # []"
    and t3: "To (test_email\<lparr>To := [''nobody'']\<rparr>) = ''nobody'' # []"
    and t4: "To test_email = ''recipient@example.com'' # []"
    by (simp_all add: test_email_def)
  have c1: "count_list ''a@b@c'' (CHR ''@'') = 2" and c3: "count_list ''nobody'' (CHR ''@'') = 0"
    and c4: "count_list ''recipient@example.com'' (CHR ''@'') = 1" by simp_all
  have u2: "''user@'' = ''user'' @ ''@''" by simp
  from c1 have h1: "count_list ''a@b@c'' (CHR ''@'') \<noteq> 1 \<or> (\<exists>local. ''a@b@c'' = local @ ''@'')" by simp
  from u2 have h2: "count_list ''user@'' (CHR ''@'') \<noteq> 1 \<or> (\<exists>local. ''user@'' = local @ ''@'')"
    by (intro disjI2 exI)
  from c3 have h3: "count_list ''nobody'' (CHR ''@'') \<noteq> 1 \<or> (\<exists>local. ''nobody'' = local @ ''@'')" by simp
  have n4: "\<not> (count_list ''recipient@example.com'' (CHR ''@'') \<noteq> 1
              \<or> (\<exists>local. ''recipient@example.com'' = local @ ''@''))"
    by (simp add: append_eq_Cons_conv)
  note r1 = mp [OF conjunct1 [OF extractDomain_exactly_one_at [OF t1]] h1]
  note r2 = mp [OF conjunct1 [OF extractDomain_exactly_one_at [OF t2]] h2]
  note r3 = mp [OF conjunct1 [OF extractDomain_exactly_one_at [OF t3]] h3]
  from n4 conjunct2 [OF extractDomain_exactly_one_at [OF t4], of 0 0 mock_LookupMX mock_Send_ok test_service]
  have r4: "fst (processEmail test_email 0 0 mock_LookupMX mock_Send_ok test_service)
       \<noteq> Some (Errorf ''invalid recipient domain'')" by (rule contrapos_nn [OF _ iffD1])
  from t1 c1 r1 t2 u2 r2 t3 c3 r3 t4 c4 r4 show ?thesis by (intro conjI)
qed

subsection \<open>The attempt algorithm\<close>

lemma Send_loop_all_fail:
  "\<forall>p\<in>set hosts. Send (Host p) e \<noteq> None \<Longrightarrow>
   Send_loop Send e hosts lastErr tried =
     (False, (if hosts = [] then lastErr else Send (Host (last hosts)) e), tried @ map Host hosts)"
proof (induction hosts arbitrary: lastErr tried)
  case Nil
  then show ?case by simp
next
  case (Cons r rs)
  then obtain err where err: "Send (Host r) e = Some err" by auto
  from Cons.prems have "\<forall>p\<in>set rs. Send (Host p) e \<noteq> None" by simp
  from Cons.IH [OF this, of "Some err" "tried @ [Host r]"] err show ?case by simp
qed

lemma Send_loop_first_success:
  "\<forall>p\<in>set pre. Send (Host p) e \<noteq> None \<Longrightarrow> Send (Host r) e = None \<Longrightarrow>
   \<exists>le. Send_loop Send e (pre @ r # post) lastErr tried = (True, le, tried @ map Host pre @ [Host r])"
proof (induction pre arbitrary: lastErr tried)
  case Nil
  then show ?case by simp
next
  case (Cons x xs)
  then obtain err where err: "Send (Host x) e = Some err" by auto
  from Cons.prems have "\<forall>p\<in>set xs. Send (Host p) e \<noteq> None" by simp
  from Cons.IH [OF this Cons.prems(2), of "Some err" "tried @ [Host x]"] err show ?case by simp
qed

lemma processEmail_no_recipients:
  "To e = [] \<Longrightarrow> processEmail e now1 now2 LookupMX Send s = (Some (Errorf ''no recipients''), s, [], 0)"
  by (simp add: processEmail_def)

lemma processEmail_resolution_failed:
  assumes "To e = a # rest" and "extractDomain a = domain" and "domain \<noteq> []"
    and "getMXRecords domain now1 now2 LookupMX s = (Inl err, s1, n)"
  shows "processEmail e now1 now2 LookupMX Send s =
           (Some (Errorf_w ''failed to get MX records: '' err), s1, [], n)"
  using assms by (simp add: processEmail_valid_domain [of e a rest])

lemma processEmail_no_targets:
  assumes "To e = a # rest" and "extractDomain a = domain" and "domain \<noteq> []"
    and "getMXRecords domain now1 now2 LookupMX s = (Inr [], s1, n)"
  shows "processEmail e now1 now2 LookupMX Send s = (Some (Errorf ''no MX servers found''), s1, [], n)"
  using assms by (simp add: processEmail_valid_domain [of e a rest])

lemma processEmail_first_success:
  assumes "To e = a # rest" and "extractDomain a = domain" and "domain \<noteq> []"
    and "getMXRecords domain now1 now2 LookupMX s = (Inr (pre @ r # post), s1, n)"
    and "\<forall>p\<in>set pre. Send (Host p) e \<noteq> None" and "Send (Host r) e = None"
  shows "processEmail e now1 now2 LookupMX Send s = (None, s1, map Host pre @ [Host r], n)"
proof -
  have "\<exists>le. Send_loop Send e (pre @ r # post) None [] = (True, le, [] @ map Host pre @ [Host r])"
    using assms(5,6) by (rule Send_loop_first_success)
  then obtain le where "Send_loop Send e (pre @ r # post) None [] = (True, le, map Host pre @ [Host r])"
    by auto
  with assms(1-4) show ?thesis by (simp add: processEmail_valid_domain [of e a rest])
qed

lemma processEmail_all_failed:
  assumes "To e = a # rest" and "extractDomain a = domain" and "domain \<noteq> []"
    and "getMXRecords domain now1 now2 LookupMX s = (Inr hosts, s1, n)"
    and "hosts \<noteq> []" and "\<forall>p\<in>set hosts. Send (Host p) e \<noteq> None"
  shows "\<exists>lastErr. Send (Host (last hosts)) e = Some lastErr \<and>
           processEmail e now1 now2 LookupMX Send s =
             (Some (Errorf_w ''all MX servers failed: '' lastErr), s1, map Host hosts, n)"
proof -
  from assms(5,6) obtain lastErr where l: "Send (Host (last hosts)) e = Some lastErr"
    using last_in_set by fastforce
  have "Send_loop Send e hosts None [] =
     (False, (if hosts = [] then None else Send (Host (last hosts)) e), [] @ map Host hosts)"
    using assms(6) by (rule Send_loop_all_fail)
  with assms(5) l
  have "Send_loop Send e hosts None [] = (False, Some lastErr, map Host hosts)" by simp
  with assms(1-4) have "processEmail e now1 now2 LookupMX Send s =
             (Some (Errorf_w ''all MX servers failed: '' lastErr), s1, map Host hosts, n)"
    by (simp add: processEmail_valid_domain [of e a rest])
  with l show ?thesis by blast
qed

text \<open>
  Claim C5, as amended. \<open>processEmail\<close> fails with the no-recipients error when the
  \<open>To\<close> list is empty, and with the invalid-domain error when the first \<open>To\<close> address
  does not hold exactly one \<open>@\<close> or has nothing after it. For an address
  \<open>local@domain\<close> with a single \<open>@\<close> and a non-empty domain: if resolving the domain
  fails, it returns the resolution error wrapping the resolver's error and tries no host;
  if the resolution gives no host, it returns the no-targets error; otherwise it tries the
  hosts in the order given, stops and reports success at the first host that accepts the
  message (the hosts after it are not tried), and if every host fails it returns the
  all-targets-failed error wrapping the error of the last host.
\<close>

theorem processEmail_outcomes:
  "(To e = [] \<longrightarrow>
      processEmail e now1 now2 LookupMX Send s = (Some (Errorf ''no recipients''), s, [], 0))
   \<and> (\<forall>a rest. To e = a # rest \<longrightarrow>
        (count_list a (CHR ''@'') \<noteq> 1 \<or> (\<exists>local. a = local @ ''@'') \<longrightarrow>
           processEmail e now1 now2 LookupMX Send s
             = (Some (Errorf ''invalid recipient domain''), s, [], 0))
      \<and> (\<forall>local domain.
            a = local @ ''@'' @ domain \<and> CHR ''@'' \<notin> set local \<and> CHR ''@'' \<notin> set domain
              \<and> domain \<noteq> [] \<longrightarrow>
            (\<forall>err s1 n. getMXRecords domain now1 now2 LookupMX s = (Inl err, s1, n) \<longrightarrow>
               processEmail e now1 now2 LookupMX Send s
                 = (Some (Errorf_w ''failed to get MX records: '' err), s1, [], n))
          \<and> (\<forall>hosts s1 n. getMXRecords domain now1 now2 LookupMX s = (Inr hosts, s1, n) \<longrightarrow>
               (hosts = [] \<longrightarrow>
                  processEmail e now1 now2 LookupMX Send s
                    = (Some (Errorf ''no MX servers found''), s1, [], n))
             \<and> (\<forall>pre r post.
                   hosts = pre @ r # post \<and> (\<forall>p\<in>set pre. Send (Host p) e \<noteq> None)
                     \<and> Send (Host r) e = None \<longrightarrow>
                   processEmail e now1 now2 LookupMX Send s
                     = (None, s1, map Host pre @ [Host r], n))
             \<and> (hosts \<noteq> [] \<and> (\<forall>p\<in>set hosts. Send (Host p) e \<noteq> None) \<longrightarrow>
                  (\<exists>lastErr. Send (Host (last hosts)) e = Some lastErr \<and>
                     processEmail e now1 now2 LookupMX Send s
                       = (Some (Errorf_w ''all MX servers failed: '' lastErr), s1,
                          map Host hosts, n))))))"
proof (intro conjI allI impI)
  assume "To e = []"
  then show "processEmail e now1 now2 LookupMX Send s = (Some (Errorf ''no recipients''), s, [], 0)"
    by (rule processEmail_no_recipients)
next
  fix a rest
  assume to: "To e = a # rest"
  assume "count_list a (CHR ''@'') \<noteq> 1 \<or> (\<exists>local. a = local @ ''@'')"
  then have "extractDomain a = []" by (simp only: extractDomain_empty_iff)
  with to show "processEmail e now1 now2 LookupMX Send s
             = (Some (Errorf ''invalid recipient domain''), s, [], 0)"
    by (simp add: processEmail_def)
next
  fix a rest local domain err s1 n
  assume to: "To e = a # rest"
    and a: "a = local @ ''@'' @ domain \<and> CHR ''@'' \<notin> set local \<and> CHR ''@'' \<notin> set domain \<and> domain \<noteq> []"
    and g: "getMXRecords domain now1 now2 LookupMX s = (Inl err, s1, n)"
  from a have d: "extractDomain a = domain" "domain \<noteq> []"
    by (simp_all add: extractDomain_one_at)
  show "processEmail e now1 now2 LookupMX Send s
                 = (Some (Errorf_w ''failed to get MX records: '' err), s1, [], n)"
    by (rule processEmail_resolution_failed [OF to d g])
next
  fix a rest local domain hosts s1 n
  assume to: "To e = a # rest"
    and a: "a = local @ ''@'' @ domain \<and> CHR ''@'' \<notin> set local \<and> CHR ''@'' \<notin> set domain \<and> domain \<noteq> []"
    and g: "getMXRecords domain now1 now2 LookupMX s = (Inr hosts, s1, n)"
    and e: "hosts = []"
  from a have d: "extractDomain a = domain" "domain \<noteq> []"
    by (simp_all add: extractDomain_one_at)
  show "processEmail e now1 now2 LookupMX Send s = (Some (Errorf ''no MX servers found''), s1, [], n)"
    by (rule processEmail_no_targets [OF to d g [unfolded e]])
next
  fix a rest local domain hosts s1 n pre r post
  assume to: "To e = a # rest"
    and a: "a = local @ ''@'' @ domain \<and> CHR ''@'' \<notin> set local \<and> CHR ''@'' \<notin> set domain \<and> domain \<noteq> []"
    and g: "getMXRecords domain now1 now2 LookupMX s = (Inr hosts, s1, n)"
    and h: "hosts = pre @ r # post \<and> (\<forall>p\<in>set pre. Send (Host p) e \<noteq> None) \<and> Send (Host r) e = None"
  from a have d: "extractDomain a = domain" "domain \<noteq> []"
    by (simp_all add: extractDomain_one_at)
  from h have h1: "hosts = pre @ r # post" and h2: "\<forall>p\<in>set pre. Send (Host p) e \<noteq> None"
    and h3: "Send (Host r) e = None" by simp_all
  show "processEmail e now1 now2 LookupMX Send s = (None, s1, map Host pre @ [Host r], n)"
    using to d g [unfolded h1] h2 h3 by (rule processEmail_first_success)
next
  fix a rest local domain hosts s1 n
  assume to: "To e = a # rest"
    and a: "a = local @ ''@'' @ domain \<and> CHR ''@'' \<notin> set local \<and> CHR ''@'' \<notin> set domain \<and> domain \<noteq> []"
    and g: "getMXRecords domain now1 now2 LookupMX s = (Inr hosts, s1, n)"
    and h: "hosts \<noteq> [] \<and> (\<forall>p\<in>set hosts. Send (Host p) e \<noteq> None)"
  from a have d: "extractDomain a = domain" "domain \<noteq> []"
    by (simp_all add: extractDomain_one_at)
  from h have h1: "hosts \<noteq> []" and h2: "\<forall>p\<in>set hosts. Send (Host p) e \<noteq> None" by simp_all
  show "\<exists>lastErr. Send (Host (last hosts)) e = Some lastErr \<and>
                     processEmail e now1 now2 LookupMX Send s
                       = (Some (Errorf_w ''all MX servers failed: '' lastErr), s1,
                          map Host hosts, n)"
    using to d g h1 h2 by (rule processEmail_all_failed)
qed

theorem processEmail_outcomes_witness:
  "To test_email = ''recipient@example.com'' # []
   \<and> ''recipient@example.com'' = ''recipient'' @ ''@'' @ ''example.com''
   \<and> CHR ''@'' \<notin> set ''recipient'' \<and> CHR ''@'' \<notin> set ''example.com'' \<and> ''example.com'' \<noteq> []
   \<and> (\<exists>s1. getMXRecords ''example.com'' 0 0 two_LookupMX test_service
              = (Inr ([\<lparr>Host = ''mx1.example.com'', Pref = 10\<rparr>] @ \<lparr>Host = ''mx2.example.com'', Pref = 20\<rparr> # []), s1, 1)
         \<and> mx1_refuses ''mx1.example.com'' test_email = Some (External ''connection refused'')
         \<and> mx1_refuses ''mx2.example.com'' test_email = None
         \<and> processEmail test_email 0 0 two_LookupMX mx1_refuses test_service
              = (None, s1, [''mx1.example.com'', ''mx2.example.com''], 1))"
proof -
  let ?a = "\<lparr>Host = ''mx1.example.com'', Pref = 10\<rparr>"
  let ?b = "\<lparr>Host = ''mx2.example.com'', Pref = 20\<rparr>"
  have to: "To test_email = ''recipient@example.com'' # []" by (simp add: test_email_def)
  have a1: "''recipient@example.com'' = ''recipient'' @ ''@'' @ ''example.com''" by simp
  have a2: "CHR ''@'' \<notin> set ''recipient''" and a3: "CHR ''@'' \<notin> set ''example.com''"
    and a4: "''example.com'' \<noteq> []" by simp_all
  obtain s1 where g: "getMXRecords ''example.com'' 0 0 two_LookupMX test_service = (Inr ([?a] @ ?b # []), s1, 1)"
    by (simp add: getMXRecords_def two_LookupMX_def test_service_def NewService_def)
  have s1: "mx1_refuses ''mx1.example.com'' test_email = Some (External ''connection refused'')"
    and s2: "mx1_refuses ''mx2.example.com'' test_email = None"
    by (simp_all add: mx1_refuses_def)
  have pre: "[?a] @ ?b # [] = [?a] @ ?b # [] \<and> (\<forall>p\<in>set [?a]. mx1_refuses (Host p) test_email \<noteq> None)
      \<and> mx1_refuses (Host ?b) test_email = None"
    by (simp add: mx1_refuses_def)
  note step1 = processEmail_outcomes [of test_email 0 0 two_LookupMX mx1_refuses test_service,
      THEN conjunct2, rule_format, OF to, THEN conjunct2, rule_format,
      of "''recipient''" "''example.com''", THEN conjunct2, rule_format, OF _ g,
      THEN conjunct2, THEN conjunct1, rule_format, OF _ pre]
  have "processEmail test_email 0 0 two_LookupMX mx1_refuses test_service
              = (None, s1, map Host [?a] @ [Host ?b], 1)"
    by (rule step1) (intro conjI a1 a2 a3 a4)
  then have p: "processEmail test_email 0 0 two_LookupMX mx1_refuses test_service
              = (None, s1, [''mx1.example.com'', ''mx2.example.com''], 1)" by simp
  from to a1 a2 a3 a4 g s1 s2 p show ?thesis by (intro conjI exI [of _ s1])
qed

text \<open>
  Claim C5 as stated fails in two ways. The address \<open>a@b@c\<close> has a domain part after
  an \<open>@\<close>, and the resolver and the client would accept it, yet the attempt fails with
  the invalid-domain error. And for an unknown domain the attempt ends with the
  resolution error, which is none of the outcomes the claim lists.
\<close>

theorem processEmail_outcomes_counterexample:
  "processEmail (test_email\<lparr>To := [''a@b@c'']\<rparr>) 0 0 two_LookupMX mock_Send_ok test_service
     = (Some (Errorf ''invalid recipient domain''), test_service, [], 0)
   \<and> processEmail (test_email\<lparr>To := [''recipient@example.org'']\<rparr>) 0 0 mock_LookupMX mock_Send_ok
        test_service
      = (Some (Errorf_w ''failed to get MX records: '' (External ''no such host'')), test_service, [], 1)"
  by (simp add: processEmail_def extractDomain_def getMXRecords_def mock_LookupMX_def
      test_service_def NewService_def test_email_def)

subsection \<open>The DNS cache\<close>

lemma getMXRecords_hit:
  "dnsCache s d = Some entry \<Longrightarrow> now1 < expiresAt entry \<Longrightarrow>
   getMXRecords d now1 now2 LookupMX s = (Inr (mx entry), s, 0)"
  by (simp add: getMXRecords_def)

lemma getMXRecords_miss:
  assumes "dnsCache s d = None \<or> (\<exists>entry. dnsCache s d = Some entry \<and> expiresAt entry \<le> now1)"
  shows "getMXRecords d now1 now2 LookupMX s =
     (case LookupMX d of
        Inl err \<Rightarrow> (Inl err, s, 1)
      | Inr recs \<Rightarrow>
          (Inr recs,
           s\<lparr>dnsCache := (dnsCache s)(d \<mapsto> \<lparr>mx = recs, expiresAt = Add now2 (DNSCacheTTL (config s))\<rparr>)\<rparr>,
           1))"
  using assms by (auto simp: getMXRecords_def split: option.splits)

lemma getMXRecords_success:
  assumes "getMXRecords d now1 now2 LookupMX s = (Inr recs, s1, n1)"
  shows "n1 \<le> 1" and "\<exists>entry. dnsCache s1 d = Some entry \<and> mx entry = recs
           \<and> (n1 = 1 \<longrightarrow> expiresAt entry = Add now2 (DNSCacheTTL (config s)))"
proof -
  have "n1 \<le> 1 \<and> (\<exists>entry. dnsCache s1 d = Some entry \<and> mx entry = recs
           \<and> (n1 = 1 \<longrightarrow> expiresAt entry = Add now2 (DNSCacheTTL (config s))))"
  proof (cases "dnsCache s d = None \<or> (\<exists>entry. dnsCache s d = Some entry \<and> expiresAt entry \<le> now1)")
    case True
    from assms show ?thesis
      unfolding getMXRecords_miss [OF True] by (cases "LookupMX d") auto
  next
    case False
    then obtain entry where e: "dnsCache s d = Some entry" "now1 < expiresAt entry"
      by (cases "dnsCache s d") auto
    from assms show ?thesis
      unfolding getMXRecords_hit [OF e] using e by auto
  qed
  then show "n1 \<le> 1" and "\<exists>entry. dnsCache s1 d = Some entry \<and> mx entry = recs
           \<and> (n1 = 1 \<longrightarrow> expiresAt entry = Add now2 (DNSCacheTTL (config s)))"
    by simp_all
qed

text \<open>
  Claim C6, as amended. A lookup that finds an entry for the domain that expires after
  \<open>now1\<close> returns the hosts of the entry without calling the resolver. On a miss or an
  expired entry it calls the resolver once; if the resolver fails, the error is returned
  and nothing is stored; if it succeeds, the result is stored with expiry \<open>now2\<close> plus
  the configured TTL and returned. Consequently, after a lookup that returned hosts the
  cache holds an entry with these hosts; a second lookup of the domain before that entry
  expires returns them without a resolver call, so the two lookups call the resolver at
  most once combined; and a lookup at or after the expiry calls the resolver again.
\<close>

theorem getMXRecords_cache:
  "(\<forall>entry. dnsCache s d = Some entry \<and> now1 < expiresAt entry \<longrightarrow>
      getMXRecords d now1 now2 LookupMX s = (Inr (mx entry), s, 0))
   \<and> (dnsCache s d = None \<or> (\<exists>entry. dnsCache s d = Some entry \<and> expiresAt entry \<le> now1) \<longrightarrow>
        (\<forall>err. LookupMX d = Inl err \<longrightarrow> getMXRecords d now1 now2 LookupMX s = (Inl err, s, 1))
      \<and> (\<forall>recs. LookupMX d = Inr recs \<longrightarrow>
            getMXRecords d now1 now2 LookupMX s =
              (Inr recs,
               s\<lparr>dnsCache := (dnsCache s)(d \<mapsto>
                    \<lparr>mx = recs, expiresAt = Add now2 (DNSCacheTTL (config s))\<rparr>)\<rparr>,
               1)))
   \<and> (\<forall>recs s1 n1. getMXRecords d now1 now2 LookupMX s = (Inr recs, s1, n1) \<longrightarrow>
        n1 \<le> 1
      \<and> (\<exists>entry. dnsCache s1 d = Some entry \<and> mx entry = recs
           \<and> (n1 = 1 \<longrightarrow> expiresAt entry = Add now2 (DNSCacheTTL (config s)))
           \<and> (\<forall>t2 t2' L2. t2 < expiresAt entry \<longrightarrow>
                 getMXRecords d t2 t2' L2 s1 = (Inr recs, s1, 0))
           \<and> (\<forall>t3 t3' L3. expiresAt entry \<le> t3 \<longrightarrow>
                 snd (snd (getMXRecords d t3 t3' L3 s1)) = 1)))"
proof (intro conjI allI impI)
  fix entry assume "dnsCache s d = Some entry \<and> now1 < expiresAt entry"
  then show "getMXRecords d now1 now2 LookupMX s = (Inr (mx entry), s, 0)"
    by (simp add: getMXRecords_hit)
next
  fix err
  assume "dnsCache s d = None \<or> (\<exists>entry. dnsCache s d = Some entry \<and> expiresAt entry \<le> now1)"
    and "LookupMX d = Inl err"
  then show "getMXRecords d now1 now2 LookupMX s = (Inl err, s, 1)"
    by (simp add: getMXRecords_miss)
next
  fix recs
  assume "dnsCache s d = None \<or> (\<exists>entry. dnsCache s d = Some entry \<and> expiresAt entry \<le> now1)"
    and "LookupMX d = Inr recs"
  then show "getMXRecords d now1 now2 LookupMX s =
              (Inr recs,
               s\<lparr>dnsCache := (dnsCache s)(d \<mapsto>
                    \<lparr>mx = recs, expiresAt = Add now2 (DNSCacheTTL (config s))\<rparr>)\<rparr>,
               1)"
    by (simp add: getMXRecords_miss)
next
  fix recs s1 n1
  assume "getMXRecords d now1 now2 LookupMX s = (Inr recs, s1, n1)"
  then show "n1 \<le> 1" by (rule getMXRecords_success(1))
next
  fix recs s1 n1
  assume g: "getMXRecords d now1 now2 LookupMX s = (Inr recs, s1, n1)"
  from getMXRecords_success(2) [OF g] obtain entry where
    e1: "dnsCache s1 d = Some entry" and e2: "mx entry = recs"
    and e3: "n1 = 1 \<longrightarrow> expiresAt entry = Add now2 (DNSCacheTTL (config s))"
    by (elim exE conjE) (rule that)
  have later: "\<forall>t2 t2' L2. t2 < expiresAt entry \<longrightarrow> getMXRecords d t2 t2' L2 s1 = (Inr recs, s1, 0)"
    using e1 e2 by (simp add: getMXRecords_hit)
  have expired: "\<forall>t3 t3' L3. expiresAt entry \<le> t3 \<longrightarrow> snd (snd (getMXRecords d t3 t3' L3 s1)) = 1"
  proof (intro allI impI)
    fix t3 t3' L3 assume "expiresAt entry \<le> t3"
    with e1 have "dnsCache s1 d = None \<or> (\<exists>entry. dnsCache s1 d = Some entry \<and> expiresAt entry \<le> t3)"
      by simp
    then show "snd (snd (getMXRecords d t3 t3' L3 s1)) = 1"
      by (simp add: getMXRecords_miss split: sum.splits)
  qed
  from e1 e2 e3 later expired
  show "\<exists>entry. dnsCache s1 d = Some entry \<and> mx entry = recs
           \<and> (n1 = 1 \<longrightarrow> expiresAt entry = Add now2 (DNSCacheTTL (config s)))
           \<and> (\<forall>t2 t2' L2. t2 < expiresAt entry \<longrightarrow>
                 getMXRecords d t2 t2' L2 s1 = (Inr recs, s1, 0))
           \<and> (\<forall>t3 t3' L3. expiresAt entry \<le> t3 \<longrightarrow>
                 snd (snd (getMXRecords d t3 t3' L3 s1)) = 1)"
    by (intro exI [of _ entry] conjI)
qed

theorem getMXRecords_cache_witness:
  "dnsCache test_service ''example.com'' = None
   \<and> mock_LookupMX ''example.com'' = Inr [\<lparr>Host = ''mail.example.com'', Pref = 10\<rparr>]
   \<and> (\<exists>s1. getMXRecords ''example.com'' 0 0 mock_LookupMX test_service
              = (Inr [\<lparr>Host = ''mail.example.com'', Pref = 10\<rparr>], s1, 1)
         \<and> (\<exists>entry. dnsCache s1 ''example.com'' = Some entry \<and> expiresAt entry = 100000000
               \<and> getMXRecords ''example.com'' 1 1 mock_LookupMX s1
                    = (Inr [\<lparr>Host = ''mail.example.com'', Pref = 10\<rparr>], s1, 0)
               \<and> snd (snd (getMXRecords ''example.com'' 150000000 150000000 mock_LookupMX s1)) = 1))"
proof -
  let ?r = "[\<lparr>Host = ''mail.example.com'', Pref = 10\<rparr>]"
  have c: "dnsCache test_service ''example.com'' = None"
    by (simp add: test_service_def NewService_def)
  have l: "mock_LookupMX ''example.com'' = Inr ?r" by (simp add: mock_LookupMX_def)
  note all = getMXRecords_cache [of test_service "''example.com''" 0 0 mock_LookupMX]
  from c have miss: "dnsCache test_service ''example.com'' = None
      \<or> (\<exists>entry. dnsCache test_service ''example.com'' = Some entry \<and> expiresAt entry \<le> 0)"
    by (rule disjI1)
  note g = all [THEN conjunct2, THEN conjunct1, rule_format, OF miss, THEN conjunct2, rule_format, OF l]
  from all [THEN conjunct2, THEN conjunct2, rule_format, OF g, THEN conjunct2]
  obtain entry where e1: "dnsCache
        (test_service\<lparr>dnsCache := (dnsCache test_service)(''example.com'' \<mapsto>
           \<lparr>mx = ?r, expiresAt = Add 0 (DNSCacheTTL (config test_service))\<rparr>)\<rparr>) ''example.com'' = Some entry"
    and e3: "(1::nat) = 1 \<longrightarrow> expiresAt entry = Add 0 (DNSCacheTTL (config test_service))"
    and e4: "\<forall>t2 t2' L2. t2 < expiresAt entry \<longrightarrow>
                 getMXRecords ''example.com'' t2 t2' L2
                   (test_service\<lparr>dnsCache := (dnsCache test_service)(''example.com'' \<mapsto>
                      \<lparr>mx = ?r, expiresAt = Add 0 (DNSCacheTTL (config test_service))\<rparr>)\<rparr>)
                 = (Inr ?r,
                    test_service\<lparr>dnsCache := (dnsCache test_service)(''example.com'' \<mapsto>
                      \<lparr>mx = ?r, expiresAt = Add 0 (DNSCacheTTL (config test_service))\<rparr>)\<rparr>, 0)"
    and e5: "\<forall>t3 t3' L3. expiresAt entry \<le> t3 \<longrightarrow>
                 snd (snd (getMXRecords ''example.com'' t3 t3' L3
                   (test_service\<lparr>dnsCache := (dnsCache test_service)(''example.com'' \<mapsto>
                      \<lparr>mx = ?r, expiresAt = Add 0 (DNSCacheTTL (config test_service))\<rparr>)\<rparr>))) = 1"
    by (elim exE conjE) (rule that)
  let ?s1 = "test_service\<lparr>dnsCache := (dnsCache test_service)(''example.com'' \<mapsto>
           \<lparr>mx = ?r, expiresAt = Add 0 (DNSCacheTTL (config test_service))\<rparr>)\<rparr>"
  from e3 have x: "expiresAt entry = 100000000"
    by (simp add: Add_def test_service_def NewService_def Millisecond_def)
  from e4 x have second: "getMXRecords ''example.com'' 1 1 mock_LookupMX ?s1 = (Inr ?r, ?s1, 0)"
    by simp
  from e5 x have third: "snd (snd (getMXRecords ''example.com'' 150000000 150000000 mock_LookupMX ?s1)) = 1"
    by simp
  from c l g e1 x second third show ?thesis
    by (intro conjI exI [of _ ?s1] exI [of _ entry])
qed

text \<open>
  Claim C6 as stated bounds the resolver calls of any two lookups within the TTL window
  by one. A failed resolution is not cached: two lookups of an unknown domain, one
  nanosecond apart, call the resolver twice.
\<close>

theorem getMXRecords_cache_counterexample:
  "(case getMXRecords ''example.org'' 0 0 mock_LookupMX test_service of
      (r1, s1, n1) \<Rightarrow>
        (case getMXRecords ''example.org'' 1 1 mock_LookupMX s1 of
           (r2, s2, n2) \<Rightarrow>
             r1 = Inl (External ''no such host'') \<and> r2 = Inl (External ''no such host'')
             \<and> n1 = 1 \<and> n2 = 1 \<and> n1 + n2 = 2
             \<and> 1 < Add 0 (DNSCacheTTL (config test_service))))"
  by (simp add: getMXRecords_def mock_LookupMX_def test_service_def NewService_def Add_def
      Millisecond_def)

subsection \<open>The worker's retry decision\<close>

text \<open>
  On a failed attempt the worker calls \<open>MarkFailed\<close> with the text of the error and
  with the decision \<open>RetryCount < maxRetry\<close>, read from the dequeued message; on
  success it calls \<open>MarkDelivered\<close>. The constructor sets \<open>maxRetry\<close> to five for
  every configuration.
\<close>

lemma NewService_maxRetry: "maxRetry (NewService cfg) = 5"
  by (simp add: NewService_def)

lemma worker_mark_failure:
  "worker_mark s e (Some err) now1 now2 h q =
     MarkFailed (ID (h e)) (Error err) (sint (RetryCount (h e)) < sint (maxRetry s)) now1 now2 h q"
  by (simp add: worker_mark_def)

lemma worker_mark_success:
  "worker_mark s e None now1 now2 h q = MarkDelivered (ID (h e)) now1 h q"
  by (simp add: worker_mark_def)

text \<open>
  Claim C4 says that \<open>maxRetry\<close> is supplied to the service when it is constructed.
  \<open>NewService\<close> takes the delivery configuration, which has no such field, and sets
  five; the \<open>MaxRetry\<close> of the queue configuration is never read. With a configured
  \<open>MaxRetry\<close> of two, a message that has been retried twice and fails again is
  queued for a third retry (the decision is \<open>2 < 5\<close>) instead of failing for good.
\<close>

theorem worker_ignores_configured_MaxRetry:
  "(let cfg = DefaultConfig_Queue\<lparr>MaxRetry := 2\<rparr>;
        s = NewService DefaultConfig_Delivery;
        h = test_heap(0 := (test_heap 0)\<lparr>Status := StatusSending, RetryCount := 2\<rparr>)
    in case worker_mark s 0 (Some (Errorf_w ''all MX servers failed: '' (External ''connection refused'')))
              1000 1000 h test_queue of
         (r, h1, q1) \<Rightarrow>
           r = None \<and> maxRetry s = 5 \<and> \<not> sint (RetryCount (h 0)) < sint (MaxRetry cfg)
           \<and> Status (h1 0) = StatusQueued \<and> RetryCount (h1 0) = 3
           \<and> LastError (h1 0) = ''all MX servers failed: connection refused''
           \<and> emails q1 = [0, 1, 2])"
  by (simp add: worker_mark_def MarkFailed_def NewService_def DefaultConfig_Queue_def Let_def
      test_heap_def test_email_def test_queue_def)

section \<open>Properties of validation\<close>

lemma processEmail_has_recipient:
  assumes "To e \<noteq> []"
  shows "fst (processEmail e now1 now2 LookupMX Send s) \<noteq> Some (Errorf ''no recipients'')"
proof -
  from assms obtain a rest where to: "To e = a # rest" by (cases "To e") auto
  show ?thesis
  proof (cases "extractDomain a = []")
    case True
    with to show ?thesis by (simp add: processEmail_def)
  next
    case False
    obtain r s1 n where g: "getMXRecords (extractDomain a) now1 now2 LookupMX s = (r, s1, n)"
      by (cases "getMXRecords (extractDomain a) now1 now2 LookupMX s")
    show ?thesis
    proof (cases r)
      case (Inl err)
      with g show ?thesis by (simp add: processEmail_valid_domain [OF to False])
    next
      case (Inr recs)
      obtain ok lastErr tried where l: "Send_loop Send e recs None [] = (ok, lastErr, tried)"
        by (cases "Send_loop Send e recs None []")
      show ?thesis
      proof (cases ok)
        case True
        with g Inr l show ?thesis by (simp add: processEmail_valid_domain [OF to False])
      next
        case no: False
        with g Inr l show ?thesis
          by (cases lastErr) (simp_all add: processEmail_valid_domain [OF to False])
      qed
    qed
  qed
qed

lemma Validate_None:
  assumes "Validate ParseAddress_ok TrimSpace maxMessageSize e = None"
  shows "To e \<noteq> []" and "TrimSpace (Body e) \<noteq> [] \<or> TrimSpace (HTML e) \<noteq> []"
proof -
  from assms show "To e \<noteq> []"
    by (cases "To e = []") (simp_all add: Validate_def split: if_splits)
  from assms show "TrimSpace (Body e) \<noteq> [] \<or> TrimSpace (HTML e) \<noteq> []"
    by (cases "TrimSpace (Body e) = [] \<and> TrimSpace (HTML e) = []")
      (simp_all add: Validate_def split: if_splits)
qed

text \<open>
  Claim C9. If \<open>Validate\<close> accepts a message (returns no error), its \<open>To\<close> list is
  not empty and at least one of its plain body and its HTML body is not blank (is not
  trimmed to the empty string); and whatever queue operations run after the validation
  (its \<open>Enqueue\<close> and \<open>Dequeue\<close> among them), the attempt algorithm on the message as
  the store then holds it never returns the no-recipients error. This holds for every
  behaviour of the library functions \<open>mail.ParseAddress\<close> and \<open>strings.TrimSpace\<close>.
\<close>

theorem Validate_excludes_no_recipients:
  assumes "Validate ParseAddress_ok TrimSpace maxMessageSize (h a) = None"
  shows "To (h a) \<noteq> []
     \<and> (TrimSpace (Body (h a)) \<noteq> [] \<or> TrimSpace (HTML (h a)) \<noteq> [])
     \<and> (\<forall>xs now1 now2 LookupMX Send s.
           fst (processEmail (fst (snd (queue_run xs h q)) a) now1 now2 LookupMX Send s)
             \<noteq> Some (Errorf ''no recipients''))"
proof (intro conjI allI)
  from assms show to: "To (h a) \<noteq> []" by (rule Validate_None(1))
  from assms show "TrimSpace (Body (h a)) \<noteq> [] \<or> TrimSpace (HTML (h a)) \<noteq> []"
    by (rule Validate_None(2))
  fix xs now1 now2 LookupMX Send s
  obtain outs h2 q2 where run: "queue_run xs h q = (outs, h2, q2)"
    by (cases "queue_run xs h q")
  from queue_run_To [OF run] to have "To (h2 a) \<noteq> []" by simp
  then have "fst (processEmail (h2 a) now1 now2 LookupMX Send s) \<noteq> Some (Errorf ''no recipients'')"
    by (rule processEmail_has_recipient)
  with run show "fst (processEmail (fst (snd (queue_run xs h q)) a) now1 now2 LookupMX Send s)
             \<noteq> Some (Errorf ''no recipients'')" by simp
qed

theorem Validate_excludes_no_recipients_witness:
  "Validate (\<lambda>addr. count_list addr (CHR ''@'') = 1) TrimSpace_ascii 26214400 (test_heap 0) = None
   \<and> To (test_heap 0) = [''recipient@example.com'']
   \<and> TrimSpace_ascii (Body (test_heap 0)) = ''Test body''
   \<and> fst (processEmail
            (fst (snd (queue_run [OpEnqueue 0 5, OpDequeue 10 6 True] test_heap (NewMemoryQueue 10))) 0)
            7 8 mock_LookupMX mock_Send_ok test_service)
        \<noteq> Some (Errorf ''no recipients'')"
proof -
  have v: "Validate (\<lambda>addr. count_list addr (CHR ''@'') = 1) TrimSpace_ascii 26214400 (test_heap 0) = None"
    by (simp add: Validate_def test_heap_def test_email_def TrimSpace_ascii_def asciiSpace_def)
  have t: "To (test_heap 0) = [''recipient@example.com'']"
    and b: "TrimSpace_ascii (Body (test_heap 0)) = ''Test body''"
    by (simp_all add: test_heap_def test_email_def TrimSpace_ascii_def asciiSpace_def)
  from Validate_excludes_no_recipients [of "\<lambda>addr. count_list addr (CHR ''@'') = 1"
      TrimSpace_ascii 26214400 test_heap 0 "NewMemoryQueue 10", OF v]
  have "\<forall>xs now1 now2 LookupMX Send s.
           fst (processEmail (fst (snd (queue_run xs test_heap (NewMemoryQueue 10))) 0) now1 now2 LookupMX Send s)
             \<noteq> Some (Errorf ''no recipients'')"
    by (elim conjE)
  then have "fst (processEmail
            (fst (snd (queue_run [OpEnqueue 0 5, OpDequeue 10 6 True] test_heap (NewMemoryQueue 10))) 0)
            7 8 mock_LookupMX mock_Send_ok test_service)
        \<noteq> Some (Errorf ''no recipients'')"
    by (elim allE)
  with v t b show ?thesis by (intro conjI)
qed

section \<open>Properties of the rendering\<close>

lemma custom_headers_eq:
  "custom_headers ToLower kvs hs =
     hs @ map (\<lambda>(k, v). k @ '': '' @ v) (filter (\<lambda>(k, v). \<not> isStandardHeader ToLower k) kvs)"
  by (induction kvs arbitrary: hs) auto

lemma isStandardHeader_iff:
  "isStandardHeader ToLower k \<longleftrightarrow>
     ToLower k \<in> {''from'', ''to'', ''cc'', ''bcc'', ''subject'', ''date'', ''mime-version'',
                   ''content-type''}"
  by (simp add: isStandardHeader_def)

lemma write_lines_buffer:
  "write_lines buffer_write w ls = Inr (w @ concat (map (\<lambda>l. l @ CRLF) ls))"
  by (induction ls arbitrary: w) (simp_all add: buffer_write_def)

text \<open>
  Claim C8, as amended. For every message, and whatever \<open>strings.ToLower\<close> computes,
  the headers assembled for transmission are, in this order: \<open>From\<close>, \<open>To\<close> (the
  addresses joined by a comma and a space), \<open>Subject\<close>, \<open>Date\<close>, \<open>MIME-Version: 1.0\<close>;
  \<open>Cc\<close> when the list is not empty; every custom header whose key, lower-cased by
  \<open>strings.ToLower\<close>, is none of \<open>from\<close>, \<open>to\<close>, \<open>cc\<close>, \<open>bcc\<close>, \<open>subject\<close>,
  \<open>date\<close>, \<open>mime-version\<close>, \<open>content-type\<close> (the others are dropped); and
  \<open>Content-Type\<close> \<open>text/html\<close> when an HTML body is present, else \<open>text/plain\<close>. The
  body is the HTML body if present, else the plain body. A writer that takes every write
  receives the header lines, each ended by CR LF, an empty line and the body.
\<close>

theorem writeEmail_rendering:
  "writeEmail_headers ToLower e date =
       [''From: '' @ From e, ''To: '' @ Join (To e) '', '', ''Subject: '' @ Subject e,
        ''Date: '' @ date, ''MIME-Version: 1.0'']
       @ (if CC e = [] then [] else [''Cc: '' @ Join (CC e) '', ''])
       @ map (\<lambda>(k, v). k @ '': '' @ v)
           (filter (\<lambda>(k, v). ToLower k \<notin> {''from'', ''to'', ''cc'', ''bcc'', ''subject'', ''date'',
                                             ''mime-version'', ''content-type''})
              (Headers e))
       @ [if HTML e = [] then ''Content-Type: text/plain; charset=utf-8''
          else ''Content-Type: text/html; charset=utf-8'']
     \<and> writeEmail_body e = (if HTML e = [] then Body e else HTML e)
     \<and> writeEmail ToLower buffer_write w e date =
         Inr (w @ concat (map (\<lambda>l. l @ CRLF) (writeEmail_headers ToLower e date)) @ CRLF
                @ writeEmail_body e)"
proof (intro conjI)
  have f: "filter (\<lambda>(k, v). \<not> isStandardHeader ToLower k) (Headers e) =
      filter (\<lambda>(k, v). ToLower k \<notin> {''from'', ''to'', ''cc'', ''bcc'', ''subject'', ''date'',
                                       ''mime-version'', ''content-type''}) (Headers e)"
    by (rule filter_cong [OF refl]) (simp only: isStandardHeader_iff split: prod.splits)
  show "writeEmail_headers ToLower e date =
       [''From: '' @ From e, ''To: '' @ Join (To e) '', '', ''Subject: '' @ Subject e,
        ''Date: '' @ date, ''MIME-Version: 1.0'']
       @ (if CC e = [] then [] else [''Cc: '' @ Join (CC e) '', ''])
       @ map (\<lambda>(k, v). k @ '': '' @ v)
           (filter (\<lambda>(k, v). ToLower k \<notin> {''from'', ''to'', ''cc'', ''bcc'', ''subject'', ''date'',
                                             ''mime-version'', ''content-type''})
              (Headers e))
       @ [if HTML e = [] then ''Content-Type: text/plain; charset=utf-8''
          else ''Content-Type: text/html; charset=utf-8'']"
    unfolding f [symmetric] by (simp add: writeEmail_headers_def custom_headers_eq Let_def)
  show "writeEmail_body e = (if HTML e = [] then Body e else HTML e)"
    by (simp add: writeEmail_body_def)
  show "writeEmail ToLower buffer_write w e date =
         Inr (w @ concat (map (\<lambda>l. l @ CRLF) (writeEmail_headers ToLower e date)) @ CRLF
                @ writeEmail_body e)"
    by (simp add: writeEmail_def write_lines_buffer buffer_write_def)
qed

text \<open>
  An instance with ASCII keys, on which \<open>strings.ToLower\<close> is \<open>ToLower_ascii\<close>: the
  \<open>X-Mailer\<close> header is kept, the \<open>Bcc\<close> and \<open>SUBJECT\<close> headers are dropped.
\<close>

theorem writeEmail_rendering_witness:
  "writeEmail_headers ToLower_ascii
        (test_email\<lparr>CC := [''c1@example.com'', ''c2@example.com''], HTML := ''<p>Test</p>'',
            Headers := [(''X-Mailer'', ''ses''), (''Bcc'', ''hidden@example.com''),
                        (''SUBJECT'', ''other'')]\<rparr>)
        ''Mon, 02 Jan 2006 15:04:05 -0700''
      = [''From: sender@example.com'', ''To: recipient@example.com'', ''Subject: Test'',
         ''Date: Mon, 02 Jan 2006 15:04:05 -0700'', ''MIME-Version: 1.0'',
         ''Cc: c1@example.com, c2@example.com'', ''X-Mailer: ses'',
         ''Content-Type: text/html; charset=utf-8'']
   \<and> writeEmail_body
        (test_email\<lparr>CC := [''c1@example.com'', ''c2@example.com''], HTML := ''<p>Test</p>'',
            Headers := [(''X-Mailer'', ''ses''), (''Bcc'', ''hidden@example.com''),
                        (''SUBJECT'', ''other'')]\<rparr>)
      = ''<p>Test</p>''"
proof -
  let ?e = "test_email\<lparr>CC := [''c1@example.com'', ''c2@example.com''], HTML := ''<p>Test</p>'',
            Headers := [(''X-Mailer'', ''ses''), (''Bcc'', ''hidden@example.com''),
                        (''SUBJECT'', ''other'')]\<rparr>"
  note r = writeEmail_rendering [of ToLower_ascii ?e "''Mon, 02 Jan 2006 15:04:05 -0700''" "[]"]
  have hd: "writeEmail_headers ToLower_ascii ?e ''Mon, 02 Jan 2006 15:04:05 -0700''
      = [''From: sender@example.com'', ''To: recipient@example.com'', ''Subject: Test'',
         ''Date: Mon, 02 Jan 2006 15:04:05 -0700'', ''MIME-Version: 1.0'',
         ''Cc: c1@example.com, c2@example.com'', ''X-Mailer: ses'',
         ''Content-Type: text/html; charset=utf-8'']"
    unfolding r [THEN conjunct1]
    by (simp add: test_email_def ToLower_ascii_def lower_byte_def)
  have bd: "writeEmail_body ?e = ''<p>Test</p>''"
    unfolding r [THEN conjunct2, THEN conjunct1] by simp
  from hd bd show ?thesis by (intro conjI)
qed

text \<open>
  Claim C8 as stated keeps every custom header whose key is not one of \<open>From\<close>,
  \<open>To\<close>, \<open>Cc\<close>, \<open>Subject\<close>, \<open>Date\<close>, \<open>MIME-Version\<close>, \<open>Content-Type\<close>. A custom
  \<open>Bcc\<close> header is none of these, and it is dropped: \<open>strings.ToLower\<close> maps the ASCII
  key \<open>Bcc\<close> to \<open>bcc\<close>, as \<open>ToLower_ascii\<close> does.
\<close>

theorem writeEmail_rendering_counterexample:
  "''Bcc'' \<notin> {''From'', ''To'', ''Cc'', ''Subject'', ''Date'', ''MIME-Version'', ''Content-Type''}
   \<and> ToLower_ascii ''Bcc'' = ''bcc''
   \<and> writeEmail_headers ToLower_ascii (test_email\<lparr>Headers := [(''Bcc'', ''hidden@example.com'')]\<rparr>)
        ''Mon, 02 Jan 2006 15:04:05 -0700''
      = [''From: sender@example.com'', ''To: recipient@example.com'', ''Subject: Test'',
         ''Date: Mon, 02 Jan 2006 15:04:05 -0700'', ''MIME-Version: 1.0'',
         ''Content-Type: text/plain; charset=utf-8'']
   \<and> ''Bcc: hidden@example.com''
        \<notin> set (writeEmail_headers ToLower_ascii
                 (test_email\<lparr>Headers := [(''Bcc'', ''hidden@example.com'')]\<rparr>)
                 ''Mon, 02 Jan 2006 15:04:05 -0700'')"
  by (simp add: writeEmail_headers_def test_email_def isStandardHeader_def ToLower_ascii_def
      lower_byte_def)

end
